theory Spec2Isabelle
  imports Main "HOL-Library.Sublist"
begin

section \<open>Byte strings\<close>

text \<open>
  A \<^verbatim>\<open>std::string\<close> is a list of bytes. The line terminator of HTTP is the two
  bytes 13 and 10.
\<close>

abbreviation CRLF :: string where
  "CRLF \<equiv> [CHR 0x0D, CHR 0x0A]"

abbreviation CRLFCRLF :: string where
  "CRLFCRLF \<equiv> [CHR 0x0D, CHR 0x0A, CHR 0x0D, CHR 0x0A]"

text \<open>
  \<^verbatim>\<open>s.find(pat)\<close>: the index of the first occurrence of \<open>pat\<close> in \<open>s\<close>, or
  \<^verbatim>\<open>npos\<close> (here \<open>None\<close>).
\<close>

fun find_str :: "string \<Rightarrow> string \<Rightarrow> nat option" where
  "find_str pat [] = (if pat = [] then Some 0 else None)"
| "find_str pat (c # cs) =
     (if prefix pat (c # cs) then Some 0 else map_option Suc (find_str pat cs))"

text \<open>\<^verbatim>\<open>s.find(pat, pos)\<close>: the search starts at index \<open>pos\<close>.\<close>

definition find_from :: "string \<Rightarrow> string \<Rightarrow> nat \<Rightarrow> nat option" where
  "find_from pat s pos =
     (if length s < pos then None
      else map_option (\<lambda>i. i + pos) (find_str pat (drop pos s)))"

text \<open>
  Decimal rendering of a number, as \<^verbatim>\<open>std::to_string\<close> and \<^verbatim>\<open>operator<<\<close> print an
  \<^verbatim>\<open>int\<close> or a \<^verbatim>\<open>size_t\<close>.
\<close>

definition digit_char :: "nat \<Rightarrow> char" where
  "digit_char d = ''0123456789'' ! d"

fun nat_digits :: "nat \<Rightarrow> string" where
  "nat_digits n =
     (if n < 10 then [digit_char n] else nat_digits (n div 10) @ [digit_char (n mod 10)])"

declare nat_digits.simps [simp del]

definition to_string :: "int \<Rightarrow> string" where
  "to_string i = (if i < 0 then CHR ''-'' # nat_digits (nat (- i)) else nat_digits (nat i))"


section \<open>System calls and their trace\<close>

text \<open>
  The handlers act on the world through system calls on file descriptors. Each call that
  matters to the properties below leaves an event in a trace; what the world answers is
  an input of the model. Logging, \<^verbatim>\<open>fcntl\<close> and \<^verbatim>\<open>select\<close> leave no event.
\<close>

datatype event =
    Ev_close int
  | Ev_send int string
  | Ev_recv int
  | Ev_peek int
  | Ev_getaddrinfo string string
  | Ev_socket int
  | Ev_connect int

datatype errno = EAGAIN | EINTR | EINPROGRESS | ECONNRESET | EPIPE | EBADF

text \<open>What a \<^verbatim>\<open>recv\<close> delivers: bytes, an orderly end of stream, or an error.\<close>

datatype recv_result = Recv_data string | Recv_eof | Recv_error errno

text \<open>The number \<^verbatim>\<open>recv\<close> returns.\<close>

fun recv_ret :: "recv_result \<Rightarrow> int" where
  "recv_ret (Recv_data bs) = int (length bs)"
| "recv_ret Recv_eof = 0"
| "recv_ret (Recv_error e) = - 1"

text \<open>
  The state shared by the handlers: the process-wide map \<^verbatim>\<open>keepAliveConnections\<close> from
  \<^verbatim>\<open>"host:port"\<close> to a socket, and the trace of system calls so far.
\<close>

record sys =
  keepAliveConnections :: "string \<rightharpoonup> int"
  trace :: "event list"

definition emit :: "event \<Rightarrow> sys \<Rightarrow> sys" where
  "emit e s = s\<lparr>trace := trace s @ [e]\<rparr>"


section \<open>The keep-alive connection pool\<close>

definition getKeepAliveConnection :: "string \<Rightarrow> string \<Rightarrow> sys \<Rightarrow> int \<times> sys" where
  "getKeepAliveConnection host port s =
     (let key = host @ '':'' @ port in
      case keepAliveConnections s key of
        Some fd \<Rightarrow> (fd, s)
      | None \<Rightarrow> (- 1, s))"

definition saveKeepAliveConnection :: "string \<Rightarrow> string \<Rightarrow> int \<Rightarrow> sys \<Rightarrow> sys" where
  "saveKeepAliveConnection host port socket s =
     (let key = host @ '':'' @ port;
          s1 = (case keepAliveConnections s key of
                  Some old \<Rightarrow> emit (Ev_close old) s
                | None \<Rightarrow> s)
      in s1\<lparr>keepAliveConnections := (keepAliveConnections s1)(key \<mapsto> socket)\<rparr>)"

definition removeKeepAliveConnection :: "string \<Rightarrow> string \<Rightarrow> sys \<Rightarrow> sys" where
  "removeKeepAliveConnection host port s =
     (let key = host @ '':'' @ port in
      s\<lparr>keepAliveConnections := (keepAliveConnections s)(key := None)\<rparr>)"


section \<open>Error responses\<close>

definition error_body :: "int \<Rightarrow> string \<Rightarrow> string" where
  "error_body statusCode statusText =
     ''<html><body><h1>'' @ to_string statusCode @ '' '' @ statusText @ ''</h1></body></html>''"

definition error_response :: "int \<Rightarrow> string \<Rightarrow> string" where
  "error_response statusCode statusText =
     ''HTTP/1.1 '' @ to_string statusCode @ '' '' @ statusText @ CRLF
     @ ''Content-Type: text/html'' @ CRLF
     @ ''Connection: close'' @ CRLF
     @ ''Content-Length: ''
     @ to_string (int (length (error_body statusCode statusText))) @ CRLF
     @ CRLF
     @ error_body statusCode statusText"

text \<open>The result of the \<^verbatim>\<open>send\<close> is ignored by the source.\<close>

definition sendErrorResponse :: "int \<Rightarrow> int \<Rightarrow> string \<Rightarrow> sys \<Rightarrow> sys" where
  "sendErrorResponse clientSocket statusCode statusText s =
     emit (Ev_send clientSocket (error_response statusCode statusText)) s"


section \<open>Parsing an unsigned number\<close>

text \<open>
  \<^verbatim>\<open>std::stoul(str)\<close> in base 10, on a platform whose \<^verbatim>\<open>unsigned long\<close> has 64 bits:
  leading white space is skipped, one sign is accepted, then the longest run of decimal
  digits is read and the rest of the string is ignored. No digit at all raises
  \<^verbatim>\<open>std::invalid_argument\<close>, a magnitude above \<^verbatim>\<open>ULONG_MAX\<close> raises
  \<^verbatim>\<open>std::out_of_range\<close>, and a minus sign negates the value modulo \<open>2 ^ 64\<close>.
\<close>

datatype exception = Invalid_argument | Out_of_range

definition isspace :: "char \<Rightarrow> bool" where
  "isspace c = (c \<in> set [CHR '' '', CHR 0x09, CHR 0x0A, CHR 0x0B, CHR 0x0C, CHR 0x0D])"

definition isdigit :: "char \<Rightarrow> bool" where
  "isdigit c = (c \<in> set ''0123456789'')"

definition digit_val :: "char \<Rightarrow> nat" where
  "digit_val c = of_char c - 48"

definition ULONG_MAX :: nat where
  "ULONG_MAX = 2 ^ 64 - 1"

definition stoul :: "string \<Rightarrow> exception + nat" where
  "stoul str =
     (let s1 = dropWhile isspace str;
          neg = (s1 \<noteq> [] \<and> hd s1 = CHR ''-'');
          s2 = (if s1 \<noteq> [] \<and> (hd s1 = CHR ''-'' \<or> hd s1 = CHR ''+'') then tl s1 else s1);
          ds = takeWhile isdigit s2;
          v = foldl (\<lambda>a c. 10 * a + digit_val c) 0 ds
      in if ds = [] then Inl Invalid_argument
         else if ULONG_MAX < v then Inl Out_of_range
         else Inr (if neg then (2 ^ 64 - v) mod 2 ^ 64 else v))"


section \<open>The upstream dialer\<close>

text \<open>
  What the world answers to the calls of one \<^verbatim>\<open>connectToServer\<close>: the one-byte peek on a
  pooled socket, then \<^verbatim>\<open>getaddrinfo\<close>, \<^verbatim>\<open>socket\<close>, \<^verbatim>\<open>connect\<close> (with its
  \<^verbatim>\<open>errno\<close>), the \<^verbatim>\<open>select\<close> that waits for the connection, and the \<^verbatim>\<open>SO_ERROR\<close>
  option read afterwards.
\<close>

record dial_env =
  peek_result :: recv_result
  getaddrinfo_ret :: int
  socket_ret :: int
  connect_ret :: int
  connect_errno :: errno
  select_ret :: int
  so_error :: int

text \<open>The second half of \<^verbatim>\<open>connectToServer\<close>: a new connection.\<close>

definition newConnection :: "dial_env \<Rightarrow> string \<Rightarrow> string \<Rightarrow> sys \<Rightarrow> int \<times> sys" where
  "newConnection env host port s =
     (let s1 = emit (Ev_getaddrinfo host port) s in
      if getaddrinfo_ret env \<noteq> 0 then (- 1, s1)
      else
        let sockfd = socket_ret env; s2 = emit (Ev_socket sockfd) s1 in
        if sockfd < 0 then (- 1, s2)
        else
          let s3 = emit (Ev_connect sockfd) s2 in
          if connect_ret env < 0 then
            if connect_errno env = EINPROGRESS then
              if select_ret env = 1 then
                if so_error env \<noteq> 0 then (- 1, emit (Ev_close sockfd) s3)
                else (sockfd, s3)
              else (- 1, emit (Ev_close sockfd) s3)
            else (- 1, emit (Ev_close sockfd) s3)
          else (sockfd, s3))"

definition connectToServer :: "dial_env \<Rightarrow> string \<Rightarrow> string \<Rightarrow> sys \<Rightarrow> int \<times> sys" where
  "connectToServer env host port s =
     (case getKeepAliveConnection host port s of
        (existingSocket, s1) \<Rightarrow>
          if 0 < existingSocket then
            let s2 = emit (Ev_peek existingSocket) s1 in
            if recv_ret (peek_result env) = 0 then
              newConnection env host port
                (removeKeepAliveConnection host port (emit (Ev_close existingSocket) s2))
            else (existingSocket, s2)
          else newConnection env host port s1)"


section \<open>Streaming the response\<close>

text \<open>
  The response loops of \<^verbatim>\<open>forwardGet\<close> and \<^verbatim>\<open>forwardPost\<close> are the same code up to the
  names of two variables and to logging; they are modelled once. The local variables of
  the loop:
\<close>

record resp =
  responseHeaders :: string
  headersComplete :: bool
  keepAliveServer :: bool
  contentLength :: nat
  receivedBodyBytes :: nat
  chunkedEncoding :: bool
  bytesRead :: int

definition resp_init :: resp where
  "resp_init =
     \<lparr>responseHeaders = [], headersComplete = False, keepAliveServer = False,
      contentLength = 0, receivedBodyBytes = 0, chunkedEncoding = False, bytesRead = 0\<rparr>"

text \<open>How a handler, or one of its loops, ends: it runs to its end, an exception leaves
  it, or it waits in a system call that the world never answers.\<close>

datatype status = Finished | Threw exception | Blocked

datatype flow = Continue | Break | Throw exception

text \<open>
  The value of \<^verbatim>\<open>Content-Length\<close>: the text between the first \<^verbatim>\<open>"Content-Length: "\<close> and
  the next line end (or the end of the header section, where \<^verbatim>\<open>find\<close> yields \<^verbatim>\<open>npos\<close> and
  \<^verbatim>\<open>substr\<close> takes the rest), converted by \<^verbatim>\<open>std::stoul\<close> outside any \<^verbatim>\<open>try\<close> block.
\<close>

definition lengthStr_of :: "string \<Rightarrow> nat \<Rightarrow> string" where
  "lengthStr_of headerSection contentLengthPos =
     (let valueStart = contentLengthPos + 16 in
      case find_from CRLF headerSection valueStart of
        None \<Rightarrow> drop valueStart headerSection
      | Some valueEnd \<Rightarrow> take (valueEnd - valueStart) (drop valueStart headerSection))"

definition parseContentLength :: "string \<Rightarrow> nat \<Rightarrow> exception + nat" where
  "parseContentLength headerSection contentLength0 =
     (case find_str ''Content-Length: '' headerSection of
        None \<Rightarrow> Inr contentLength0
      | Some contentLengthPos \<Rightarrow> stoul (lengthStr_of headerSection contentLengthPos))"

text \<open>One pass through the loop body while the headers are incomplete.\<close>

definition headerStep :: "int \<Rightarrow> string \<Rightarrow> bool \<Rightarrow> resp \<Rightarrow> event list
    \<Rightarrow> flow \<times> resp \<times> event list" where
  "headerStep clientSocket buffer sendOk r tr =
     (let r1 = r\<lparr>responseHeaders := responseHeaders r @ buffer\<rparr> in
      case find_str CRLFCRLF (responseHeaders r1) of
        None \<Rightarrow> (Continue, r1, tr)
      | Some headerEnd \<Rightarrow>
          let r2 = r1\<lparr>headersComplete := True\<rparr>;
              headerSection = take headerEnd (responseHeaders r2);
              r3 = (if find_str ''Connection: keep-alive'' headerSection \<noteq> None
                    then r2\<lparr>keepAliveServer := True\<rparr> else r2)
          in (case parseContentLength headerSection (contentLength r3) of
               Inl e \<Rightarrow> (Throw e, r3, tr)
             | Inr n \<Rightarrow>
                 let r4 = r3\<lparr>contentLength := n\<rparr>;
                     r5 = (if find_str ''Transfer-Encoding: chunked'' headerSection \<noteq> None
                           then r4\<lparr>chunkedEncoding := True\<rparr> else r4);
                     r6 = r5\<lparr>receivedBodyBytes :=
                                length (responseHeaders r5) - (headerEnd + 4)\<rparr>;
                     tr1 = tr @ [Ev_send clientSocket (responseHeaders r6)]
                 in if \<not> sendOk then (Break, r6, tr1)
                    else if (0 < contentLength r6 \<and> contentLength r6 \<le> receivedBodyBytes r6)
                            \<or> (contentLength r6 = 0 \<and> \<not> chunkedEncoding r6)
                         then (Break, r6, tr1)
                    else (Continue, r6, tr1)))"

text \<open>One pass through the loop body once the headers have been sent on.\<close>

definition bodyStep :: "int \<Rightarrow> string \<Rightarrow> bool \<Rightarrow> resp \<Rightarrow> event list
    \<Rightarrow> flow \<times> resp \<times> event list" where
  "bodyStep clientSocket buffer sendOk r tr =
     (let tr1 = tr @ [Ev_send clientSocket buffer] in
      if \<not> sendOk then (Break, r, tr1)
      else
        let r1 = r\<lparr>receivedBodyBytes := (receivedBodyBytes r + length buffer) mod 2 ^ 64\<rparr> in
        if 0 < contentLength r1 \<and> contentLength r1 \<le> receivedBodyBytes r1 then (Break, r1, tr1)
        else if chunkedEncoding r1 \<and> find_str (CHR ''0'' # CRLFCRLF) buffer \<noteq> None
             then (Break, r1, tr1)
        else (Continue, r1, tr1))"

fun recv_buf :: "recv_result \<Rightarrow> string" where
  "recv_buf (Recv_data bs) = bs"
| "recv_buf Recv_eof = []"
| "recv_buf (Recv_error e) = []"

text \<open>
  The loop. Its script lists, for each \<^verbatim>\<open>recv\<close> on the upstream socket, what the
  \<^verbatim>\<open>recv\<close> delivers and whether the \<^verbatim>\<open>send\<close> to the client of that pass (if there is
  one) succeeds. When the script is used up, the next \<^verbatim>\<open>recv\<close> does not return.
\<close>

fun responseLoop :: "int \<Rightarrow> int \<Rightarrow> (recv_result \<times> bool) list \<Rightarrow> resp \<Rightarrow> event list
    \<Rightarrow> status \<times> resp \<times> event list" where
  "responseLoop serverSocket clientSocket [] r tr = (Blocked, r, tr)"
| "responseLoop serverSocket clientSocket ((rr, sendOk) # script) r tr =
     (let r1 = r\<lparr>bytesRead := recv_ret rr\<rparr>; tr1 = tr @ [Ev_recv serverSocket] in
      if \<not> 0 < bytesRead r1 then (Finished, r1, tr1)
      else
        case (if \<not> headersComplete r1 then headerStep clientSocket (recv_buf rr) sendOk r1 tr1
              else bodyStep clientSocket (recv_buf rr) sendOk r1 tr1) of
          (Continue, r2, tr2) \<Rightarrow> responseLoop serverSocket clientSocket script r2 tr2
        | (Break, r2, tr2) \<Rightarrow> (Finished, r2, tr2)
        | (Throw e, r2, tr2) \<Rightarrow> (Threw e, r2, tr2))"

text \<open>
  After the loop: the upstream socket is closed unless the response headers asked for
  keep-alive, in which case it is stored in the pool. A read error is only logged.
\<close>

definition finishExchange :: "string \<Rightarrow> string \<Rightarrow> int \<Rightarrow> resp \<Rightarrow> sys \<Rightarrow> sys" where
  "finishExchange host port serverSocket r s =
     (if \<not> keepAliveServer r then emit (Ev_close serverSocket) s
      else saveKeepAliveConnection host port serverSocket s)"

definition forwardResponse :: "string \<Rightarrow> string \<Rightarrow> int \<Rightarrow> int \<Rightarrow> (recv_result \<times> bool) list
    \<Rightarrow> sys \<Rightarrow> status \<times> sys" where
  "forwardResponse host port serverSocket clientSocket script s =
     (case responseLoop serverSocket clientSocket script resp_init (trace s) of
        (Finished, r, tr) \<Rightarrow> (Finished, finishExchange host port serverSocket r (s\<lparr>trace := tr\<rparr>))
      | (Threw e, r, tr) \<Rightarrow> (Threw e, s\<lparr>trace := tr\<rparr>)
      | (Blocked, r, tr) \<Rightarrow> (Blocked, s\<lparr>trace := tr\<rparr>))"


section \<open>Requests\<close>

text \<open>
  Modelled from the spec: the type \<^verbatim>\<open>HttpRequest\<close> is declared in a header that is not
  part of the sources at hand. Its fields are those of the data model (section 3), the
  request method under the name \<open>http_method\<close>; the
  header map is the list of its entries in the order in which the source iterates over
  them, and \<^verbatim>\<open>headers.find(name)\<close> looks a name up with its exact casing (section 9).
\<close>

record HttpRequest =
  http_method :: string
  request :: string
  version :: string
  host :: string
  port :: string
  headers :: "(string \<times> string) list"
  body :: string
  url :: string

definition headers_find :: "HttpRequest \<Rightarrow> string \<Rightarrow> string option" where
  "headers_find req name = map_of (headers req) name"

text \<open>
  \<^verbatim>\<open>strcasecmp\<close> in the C locale, on C strings: the comparison stops at the first NUL
  byte, and upper-case ASCII letters count as their lower-case ones.
\<close>

definition c_str :: "string \<Rightarrow> string" where
  "c_str s = takeWhile (\<lambda>c. c \<noteq> CHR 0x00) s"

definition tolower :: "char \<Rightarrow> char" where
  "tolower c =
     (let n = (of_char c :: nat) in if 65 \<le> n \<and> n \<le> 90 then char_of (n + 32) else c)"

fun strcasecmp :: "string \<Rightarrow> string \<Rightarrow> int" where
  "strcasecmp [] [] = 0"
| "strcasecmp [] (b # bs) = - int (of_char (tolower b))"
| "strcasecmp (a # as) [] = int (of_char (tolower a))"
| "strcasecmp (a # as) (b # bs) =
     (if tolower a = tolower b then strcasecmp as bs
      else int (of_char (tolower a)) - int (of_char (tolower b)))"

definition hop_by_hop :: "string \<Rightarrow> bool" where
  "hop_by_hop name \<longleftrightarrow>
     strcasecmp (c_str name) ''Connection'' = 0 \<or>
     strcasecmp (c_str name) ''Keep-Alive'' = 0 \<or>
     strcasecmp (c_str name) ''Proxy-Connection'' = 0 \<or>
     strcasecmp (c_str name) ''Proxy-Authorization'' = 0 \<or>
     strcasecmp (c_str name) ''TE'' = 0 \<or>
     strcasecmp (c_str name) ''Trailer'' = 0 \<or>
     strcasecmp (c_str name) ''Transfer-Encoding'' = 0 \<or>
     strcasecmp (c_str name) ''Upgrade'' = 0"

text \<open>The loop over the headers of \<^verbatim>\<open>buildForwardRequest\<close>.\<close>

fun forward_headers :: "(string \<times> string) list \<Rightarrow> string" where
  "forward_headers [] = []"
| "forward_headers (header # rest) =
     (if hop_by_hop (fst header) then forward_headers rest
      else fst header @ '': '' @ snd header @ CRLF @ forward_headers rest)"

definition buildForwardRequest :: "HttpRequest \<Rightarrow> string" where
  "buildForwardRequest req =
     http_method req @ '' '' @ request req @ '' '' @ version req @ CRLF
     @ forward_headers (headers req)
     @ ''Connection: keep-alive'' @ CRLF
     @ CRLF"


section \<open>The handlers for GET and POST\<close>

text \<open>
  What the world answers during one exchange: the answers to the dialer, whether the
  \<^verbatim>\<open>send\<close> of the request to the upstream succeeds, the reads from the client while a
  chunked request body is still incomplete (each with the fate of the \<^verbatim>\<open>send\<close> that
  passes it on), and the script of the response loop.
\<close>

record exchange_env =
  dial :: dial_env
  request_sent :: bool
  client_chunks :: "(recv_result \<times> bool) list"
  response :: "(recv_result \<times> bool) list"

definition forwardGet :: "exchange_env \<Rightarrow> HttpRequest \<Rightarrow> int \<Rightarrow> sys \<Rightarrow> status \<times> sys" where
  "forwardGet env req clientSocket s =
     (case connectToServer (dial env) (host req) (port req) s of
        (serverSocket, s1) \<Rightarrow>
          if serverSocket < 0 then
            (Finished, sendErrorResponse clientSocket 502 ''Bad Gateway'' s1)
          else
            let s2 = emit (Ev_send serverSocket (buildForwardRequest req)) s1 in
            if \<not> request_sent env then
              (Finished, sendErrorResponse clientSocket 500 ''Internal Server Error''
                           (emit (Ev_close serverSocket) s2))
            else forwardResponse (host req) (port req) serverSocket clientSocket
                   (response env) s2)"

text \<open>The loop of \<^verbatim>\<open>forwardPost\<close> that reads the rest of a chunked request body.\<close>

datatype chunk_end = Chunks_complete | Chunks_abort | Chunks_blocked

fun readChunks :: "int \<Rightarrow> int \<Rightarrow> (recv_result \<times> bool) list \<Rightarrow> event list
    \<Rightarrow> chunk_end \<times> event list" where
  "readChunks serverSocket clientSocket [] tr = (Chunks_blocked, tr)"
| "readChunks serverSocket clientSocket ((rr, sendOk) # script) tr =
     (let tr1 = tr @ [Ev_recv clientSocket] in
      if recv_ret rr \<le> 0 then (Chunks_abort, tr1 @ [Ev_close serverSocket])
      else
        let chunk = recv_buf rr; tr2 = tr1 @ [Ev_send serverSocket chunk] in
        if \<not> sendOk then (Chunks_abort, tr2 @ [Ev_close serverSocket])
        else if find_str (CHR ''0'' # CRLFCRLF) chunk \<noteq> None then (Chunks_complete, tr2)
        else readChunks serverSocket clientSocket script tr2)"

text \<open>
  The framing of the request body as \<^verbatim>\<open>forwardPost\<close> reads it from the request headers:
  the value of \<^verbatim>\<open>Content-Length\<close> (0 when the header is absent; an exception of
  \<^verbatim>\<open>std::stoul\<close> is caught by the handler), and whether \<^verbatim>\<open>Transfer-Encoding\<close>
  contains \<^verbatim>\<open>chunked\<close>.
\<close>

definition requestFraming :: "HttpRequest \<Rightarrow> exception + (nat \<times> bool)" where
  "requestFraming req =
     (let requestChunked =
            (case headers_find req ''Transfer-Encoding'' of
               None \<Rightarrow> False
             | Some v \<Rightarrow> find_str ''chunked'' v \<noteq> None)
      in case headers_find req ''Content-Length'' of
           None \<Rightarrow> Inr (0, requestChunked)
         | Some v \<Rightarrow>
             (case stoul v of
                Inl e \<Rightarrow> Inl e
              | Inr n \<Rightarrow> Inr (n, requestChunked)))"

definition forwardPost :: "exchange_env \<Rightarrow> HttpRequest \<Rightarrow> int \<Rightarrow> sys \<Rightarrow> status \<times> sys" where
  "forwardPost env req clientSocket s =
     (let portStr = (if port req = [] then ''80'' else port req) in
      case connectToServer (dial env) (host req) portStr s of
        (serverSocket, s1) \<Rightarrow>
          if serverSocket < 0 then
            (Finished, sendErrorResponse clientSocket 502 ''Bad Gateway'' s1)
          else
            (case requestFraming req of
               Inl e \<Rightarrow>
                 (Finished, sendErrorResponse clientSocket 400 ''Bad Request''
                              (emit (Ev_close serverSocket) s1))
             | Inr (requestContentLength, requestChunked) \<Rightarrow>
                 if requestContentLength = 0 \<and> \<not> requestChunked \<and> body req \<noteq> [] then
                   (Finished, sendErrorResponse clientSocket 400 ''Bad Request''
                                (emit (Ev_close serverSocket) s1))
                 else
                   let s2 = emit (Ev_send serverSocket (buildForwardRequest req @ body req)) s1 in
                   if \<not> request_sent env then
                     (Finished, sendErrorResponse clientSocket 500 ''Internal Server Error''
                                  (emit (Ev_close serverSocket) s2))
                   else if requestChunked \<and> find_str (CHR ''0'' # CRLFCRLF) (body req) = None then
                     (case readChunks serverSocket clientSocket (client_chunks env) (trace s2) of
                        (Chunks_blocked, tr) \<Rightarrow> (Blocked, s2\<lparr>trace := tr\<rparr>)
                      | (Chunks_abort, tr) \<Rightarrow> (Finished, s2\<lparr>trace := tr\<rparr>)
                      | (Chunks_complete, tr) \<Rightarrow>
                          forwardResponse (host req) portStr serverSocket clientSocket
                            (response env) (s2\<lparr>trace := tr\<rparr>))
                   else forwardResponse (host req) portStr serverSocket clientSocket
                          (response env) s2))"


section \<open>The handler for CONNECT\<close>

text \<open>
  The tunnel asks the world four kinds of questions, each answered from a script of its
  own: the \<^verbatim>\<open>select\<close> for reading on both sockets, the \<^verbatim>\<open>recv\<close> on a ready socket,
  the \<^verbatim>\<open>send\<close> to the opposite socket (its return value and \<^verbatim>\<open>errno\<close>), and the
  \<^verbatim>\<open>select\<close> for writing after a \<^verbatim>\<open>send\<close> that would block. \<^verbatim>\<open>EWOULDBLOCK\<close> is the
  same number as \<^verbatim>\<open>EAGAIN\<close>.
\<close>

record select_reply =
  activity :: int
  select_errno :: errno
  client_isset :: bool
  server_isset :: bool

record tunnel_env =
  tunnel_dial :: dial_env
  established_sent :: bool
  selects :: "select_reply list"
  recvs :: "recv_result list"
  sends :: "(int \<times> errno) list"
  write_selects :: "int list"

datatype pump = Pump_done | Pump_continue | Pump_break | Pump_blocked

text \<open>The inner loop that writes one buffer to the opposite socket.\<close>

fun sendAll :: "int \<Rightarrow> string \<Rightarrow> int \<Rightarrow> (int \<times> errno) list \<Rightarrow> int list \<Rightarrow> event list
    \<Rightarrow> pump \<times> (int \<times> errno) list \<times> int list \<times> event list" where
  "sendAll dst buffer totalBytesSent [] ws tr =
     (if \<not> totalBytesSent < int (length buffer) then (Pump_done, [], ws, tr)
      else (Pump_blocked, [], ws, tr))"
| "sendAll dst buffer totalBytesSent ((bytesSent, e) # ss) ws tr =
     (if \<not> totalBytesSent < int (length buffer) then (Pump_done, (bytesSent, e) # ss, ws, tr)
      else
        let tr1 = tr @ [Ev_send dst (drop (nat totalBytesSent) buffer)] in
        if bytesSent \<le> 0 then
          if bytesSent < 0 \<and> e = EAGAIN then
            (case ws of
               [] \<Rightarrow> (Pump_blocked, ss, [], tr1)
             | w # ws' \<Rightarrow>
                 if w \<le> 0 then (Pump_break, ss, ws', tr1)
                 else sendAll dst buffer totalBytesSent ss ws' tr1)
          else (Pump_break, ss, ws, tr1)
        else sendAll dst buffer (totalBytesSent + bytesSent) ss ws tr1)"

text \<open>One direction of one pass: read from \<open>src\<close>, write to \<open>dst\<close>.\<close>

fun pumpOnce :: "int \<Rightarrow> int \<Rightarrow> recv_result list \<Rightarrow> (int \<times> errno) list \<Rightarrow> int list
    \<Rightarrow> event list
    \<Rightarrow> pump \<times> recv_result list \<times> (int \<times> errno) list \<times> int list \<times> event list" where
  "pumpOnce src dst [] ss ws tr = (Pump_blocked, [], ss, ws, tr)"
| "pumpOnce src dst (rr # rs) ss ws tr =
     (let tr1 = tr @ [Ev_recv src] in
      if recv_ret rr \<le> 0 then
        if recv_ret rr < 0 \<and> rr = Recv_error EAGAIN then (Pump_continue, rs, ss, ws, tr1)
        else (Pump_break, rs, ss, ws, tr1)
      else
        case sendAll dst (recv_buf rr) 0 ss ws tr1 of
          (p, ss', ws', tr2) \<Rightarrow> (p, rs, ss', ws', tr2))"

text \<open>One pass through the tunnel loop.\<close>

definition tunnelStep :: "int \<Rightarrow> int \<Rightarrow> select_reply \<Rightarrow> recv_result list
    \<Rightarrow> (int \<times> errno) list \<Rightarrow> int list \<Rightarrow> event list
    \<Rightarrow> pump \<times> recv_result list \<times> (int \<times> errno) list \<times> int list \<times> event list" where
  "tunnelStep clientSocket serverSocket sel rs ss ws tr =
     (if activity sel < 0 then
        if select_errno sel = EINTR then (Pump_continue, rs, ss, ws, tr)
        else (Pump_break, rs, ss, ws, tr)
      else if activity sel = 0 then (Pump_continue, rs, ss, ws, tr)
      else
        case (if client_isset sel then pumpOnce clientSocket serverSocket rs ss ws tr
              else (Pump_done, rs, ss, ws, tr)) of
          (Pump_done, rs1, ss1, ws1, tr1) \<Rightarrow>
            if server_isset sel then pumpOnce serverSocket clientSocket rs1 ss1 ws1 tr1
            else (Pump_done, rs1, ss1, ws1, tr1)
        | other \<Rightarrow> other)"

fun tunnelLoop :: "int \<Rightarrow> int \<Rightarrow> select_reply list \<Rightarrow> recv_result list
    \<Rightarrow> (int \<times> errno) list \<Rightarrow> int list \<Rightarrow> event list \<Rightarrow> status \<times> event list" where
  "tunnelLoop clientSocket serverSocket [] rs ss ws tr = (Blocked, tr)"
| "tunnelLoop clientSocket serverSocket (sel # sels) rs ss ws tr =
     (case tunnelStep clientSocket serverSocket sel rs ss ws tr of
        (Pump_break, rs', ss', ws', tr') \<Rightarrow> (Finished, tr')
      | (Pump_blocked, rs', ss', ws', tr') \<Rightarrow> (Blocked, tr')
      | (Pump_done, rs', ss', ws', tr') \<Rightarrow>
          tunnelLoop clientSocket serverSocket sels rs' ss' ws' tr'
      | (Pump_continue, rs', ss', ws', tr') \<Rightarrow>
          tunnelLoop clientSocket serverSocket sels rs' ss' ws' tr')"

definition established_response :: string where
  "established_response =
     ''HTTP/1.1 200 Connection Established'' @ CRLF @ ''Proxy-Agent: MyProxy/1.0'' @ CRLF @ CRLF"

definition forwardConnect :: "tunnel_env \<Rightarrow> HttpRequest \<Rightarrow> int \<Rightarrow> sys \<Rightarrow> status \<times> sys" where
  "forwardConnect env req clientSocket s =
     (case connectToServer (tunnel_dial env) (host req) (port req) s of
        (serverSocket, s1) \<Rightarrow>
          if serverSocket < 0 then
            (Finished, sendErrorResponse clientSocket 502 ''Bad Gateway'' s1)
          else
            let s2 = emit (Ev_send clientSocket established_response) s1 in
            if \<not> established_sent env then (Finished, emit (Ev_close serverSocket) s2)
            else
              (case tunnelLoop clientSocket serverSocket (selects env) (recvs env) (sends env)
                     (write_selects env) (trace s2) of
                (Finished, tr) \<Rightarrow> (Finished, emit (Ev_close serverSocket) (s2\<lparr>trace := tr\<rparr>))
              | (st, tr) \<Rightarrow> (st, s2\<lparr>trace := tr\<rparr>)))"


section \<open>Notions used to state the properties\<close>

text \<open>The events that close a file descriptor.\<close>

fun is_close :: "event \<Rightarrow> bool" where
  "is_close (Ev_close fd) = True"
| "is_close e = False"

text \<open>
  The bytes that a response script delivers: all of them, and those that arrive before
  the first end of stream or error.
\<close>

definition received :: "(recv_result \<times> bool) list \<Rightarrow> string" where
  "received script = concat (map (\<lambda>x. recv_buf (fst x)) script)"

definition upstream_bytes :: "(recv_result \<times> bool) list \<Rightarrow> string" where
  "upstream_bytes script =
     concat (map (\<lambda>x. recv_buf (fst x)) (takeWhile (\<lambda>x. 0 < recv_ret (fst x)) script))"

text \<open>
  The upstream advertises keep-alive when its header block, the bytes before the first
  empty line, contains \<^verbatim>\<open>Connection: keep-alive\<close>. The second definition is the same
  notion for a loop that has already accumulated \<open>acc\<close>.
\<close>

definition advertises_keep_alive :: "(recv_result \<times> bool) list \<Rightarrow> bool" where
  "advertises_keep_alive script =
     (case find_str CRLFCRLF (upstream_bytes script) of
        None \<Rightarrow> False
      | Some headerEnd \<Rightarrow>
          find_str ''Connection: keep-alive'' (take headerEnd (upstream_bytes script)) \<noteq> None)"

definition advertised_from :: "string \<Rightarrow> (recv_result \<times> bool) list \<Rightarrow> bool" where
  "advertised_from acc script =
     (case find_str CRLFCRLF (acc @ upstream_bytes script) of
        None \<Rightarrow> False
      | Some headerEnd \<Rightarrow>
          find_str ''Connection: keep-alive'' (take headerEnd (acc @ upstream_bytes script)) \<noteq> None)"

text \<open>
  What becomes of the upstream socket at the end of an exchange that started in state
  \<open>s1\<close> and ended in state \<open>s'\<close>: it is in the pool under its key if the upstream
  advertised keep-alive; otherwise the pool is as before and the last system call closed
  the socket.
\<close>

definition pooled_iff_advertised :: "string \<Rightarrow> string \<Rightarrow> int \<Rightarrow> (recv_result \<times> bool) list
    \<Rightarrow> sys \<Rightarrow> sys \<Rightarrow> bool" where
  "pooled_iff_advertised h p serverSocket script s1 s' =
     (if advertises_keep_alive script
      then keepAliveConnections s' (h @ '':'' @ p) = Some serverSocket
      else keepAliveConnections s' = keepAliveConnections s1
           \<and> trace s' \<noteq> [] \<and> last (trace s') = Ev_close serverSocket)"

text \<open>
  Reading a message back: its lines (the text between line terminators), and the header
  fields, which are the lines after the first one up to the empty line, each split at
  the first colon and the space after it.
\<close>

fun split_crlf :: "string \<Rightarrow> string list" where
  "split_crlf [] = [[]]"
| "split_crlf [c] = [[c]]"
| "split_crlf (c # d # cs) =
     (if c = CHR 0x0D \<and> d = CHR 0x0A then [] # split_crlf cs
      else case split_crlf (d # cs) of
             [] \<Rightarrow> [[c]]
           | l # ls \<Rightarrow> (c # l) # ls)"

definition parse_field :: "string \<Rightarrow> string \<times> string" where
  "parse_field line =
     (let name = takeWhile (\<lambda>c. c \<noteq> CHR '':'') line in (name, drop (length name + 2) line))"

definition header_fields :: "string \<Rightarrow> (string \<times> string) list" where
  "header_fields message = map parse_field (takeWhile (\<lambda>l. l \<noteq> []) (tl (split_crlf message)))"

definition line_of :: "string \<times> string \<Rightarrow> string" where
  "line_of h = fst h @ '': '' @ snd h"

text \<open>
  The requests that the parser hands over (section 3: the headers are well formed): no
  part of the request line and no header contains a carriage return, and no header name
  contains a colon or a NUL byte.
\<close>

definition well_formed :: "HttpRequest \<Rightarrow> bool" where
  "well_formed req \<longleftrightarrow>
     CHR 0x0D \<notin> set (http_method req) \<and> CHR 0x0D \<notin> set (request req)
     \<and> CHR 0x0D \<notin> set (version req)
     \<and> (\<forall>h \<in> set (headers req).
           CHR 0x0D \<notin> set (fst h) \<and> CHR '':'' \<notin> set (fst h) \<and> CHR 0x00 \<notin> set (fst h)
           \<and> CHR 0x0D \<notin> set (snd h))"

text \<open>
  The strip list of section 4.3.1 in the words of the specification: a header is
  hop-by-hop when its name equals one of the eight names up to the case of its letters.
\<close>

definition strip_list :: "string list" where
  "strip_list = [''Connection'', ''Keep-Alive'', ''Proxy-Connection'', ''Proxy-Authorization'',
     ''TE'', ''Trailer'', ''Transfer-Encoding'', ''Upgrade'']"

definition lower :: "string \<Rightarrow> string" where
  "lower s = map tolower s"

definition in_strip_list :: "string \<Rightarrow> bool" where
  "in_strip_list name \<longleftrightarrow> lower name \<in> set (map lower strip_list)"


section \<open>Example inputs\<close>

definition sys0 :: sys where
  "sys0 = \<lparr>keepAliveConnections = Map.empty, trace = []\<rparr>"

definition pooled_sys :: sys where
  "pooled_sys = \<lparr>keepAliveConnections = [''example.com:80'' \<mapsto> 5], trace = []\<rparr>"

text \<open>A dial that succeeds with socket 7 after a connect in progress, and one that times out.\<close>

definition dial_ok :: dial_env where
  "dial_ok = \<lparr>peek_result = Recv_error EAGAIN, getaddrinfo_ret = 0, socket_ret = 7,
     connect_ret = - 1, connect_errno = EINPROGRESS, select_ret = 1, so_error = 0\<rparr>"

definition dial_down :: dial_env where
  "dial_down = dial_ok\<lparr>select_ret := 0\<rparr>"

definition dialled_sys :: sys where
  "dialled_sys = \<lparr>keepAliveConnections = Map.empty,
     trace = [Ev_getaddrinfo ''example.com'' ''80'', Ev_socket 7, Ev_connect 7]\<rparr>"

definition exchange :: "dial_env \<Rightarrow> (recv_result \<times> bool) list \<Rightarrow> exchange_env" where
  "exchange d script = \<lparr>dial = d, request_sent = True, client_chunks = [], response = script\<rparr>"

definition get_req :: HttpRequest where
  "get_req = \<lparr>http_method = ''GET'', request = ''http://example.com/x'', version = ''HTTP/1.1'',
     host = ''example.com'', port = ''80'',
     headers = [(''Host'', ''example.com''), (''Connection'', ''keep-alive'')],
     body = [], url = ''http://example.com/x''\<rparr>"

definition forwarded_get :: string where
  "forwarded_get = ''GET http://example.com/x HTTP/1.1'' @ CRLF @ ''Host: example.com'' @ CRLF
     @ ''Connection: keep-alive'' @ CRLFCRLF"

definition strip_req :: HttpRequest where
  "strip_req = \<lparr>http_method = ''GET'', request = ''http://example.com/x'', version = ''HTTP/1.1'',
     host = ''example.com'', port = ''80'',
     headers = [(''Host'', ''example.com''), (''connection'', ''close''), (''TE'', ''trailers''),
                (''Accept'', ''*/*''), (''Proxy-Connection'', ''keep-alive'')],
     body = ''xyz'', url = ''http://example.com/x''\<rparr>"

definition post_req :: HttpRequest where
  "post_req = \<lparr>http_method = ''POST'', request = ''http://example.com/f'', version = ''HTTP/1.1'',
     host = ''example.com'', port = ''80'',
     headers = [(''Host'', ''example.com''), (''Content-Length'', ''not-a-number'')],
     body = ''abc'', url = ''http://example.com/f''\<rparr>"

definition post_ok_req :: HttpRequest where
  "post_ok_req = \<lparr>http_method = ''POST'', request = ''http://example.com/f'', version = ''HTTP/1.1'',
     host = ''example.com'', port = [],
     headers = [(''Host'', ''example.com''), (''Content-Length'', ''3'')],
     body = ''abc'', url = ''http://example.com/f''\<rparr>"

definition connect_req :: HttpRequest where
  "connect_req = \<lparr>http_method = ''CONNECT'', request = ''example.com:443'', version = ''HTTP/1.1'',
     host = ''example.com'', port = ''443'', headers = [], body = [], url = ''example.com:443''\<rparr>"

text \<open>Scenario S3: the whole chunked response arrives in one read.\<close>

definition s3_response :: string where
  "s3_response = ''HTTP/1.1 200 OK'' @ CRLF @ ''Transfer-Encoding: chunked'' @ CRLFCRLF
     @ ''5'' @ CRLF @ ''hello'' @ CRLF @ ''0'' @ CRLFCRLF"

definition bare_response :: string where
  "bare_response = ''HTTP/1.1 200 OK'' @ CRLFCRLF"

definition keep_alive_response :: string where
  "keep_alive_response = ''HTTP/1.1 200 OK'' @ CRLF @ ''Connection: keep-alive'' @ CRLF
     @ ''Content-Length: 10'' @ CRLFCRLF @ ''hi''"

definition plain_response :: string where
  "plain_response = ''HTTP/1.1 200 OK'' @ CRLF @ ''Content-Length: 10'' @ CRLFCRLF @ ''hi''"

text \<open>A response in one read, followed by a read that fails.\<close>

definition error_after :: "string \<Rightarrow> (recv_result \<times> bool) list" where
  "error_after resp = [(Recv_data resp, True), (Recv_error ECONNRESET, True)]"

definition bad_length_response :: string where
  "bad_length_response = ''HTTP/1.1 200 OK'' @ CRLF @ ''Content-Length: abc'' @ CRLFCRLF"

definition response_400 :: string where
  "response_400 = ''HTTP/1.1 400 Bad Request'' @ CRLF @ ''Content-Type: text/html'' @ CRLF
     @ ''Connection: close'' @ CRLF @ ''Content-Length: 50'' @ CRLF @ CRLF
     @ ''<html><body><h1>400 Bad Request</h1></body></html>''"

definition response_502 :: string where
  "response_502 = ''HTTP/1.1 502 Bad Gateway'' @ CRLF @ ''Content-Type: text/html'' @ CRLF
     @ ''Connection: close'' @ CRLF @ ''Content-Length: 50'' @ CRLF @ CRLF
     @ ''<html><body><h1>502 Bad Gateway</h1></body></html>''"

text \<open>The same response with the length that scenario S2 of the specification gives.\<close>

definition response_502_spec :: string where
  "response_502_spec = ''HTTP/1.1 502 Bad Gateway'' @ CRLF @ ''Content-Type: text/html'' @ CRLF
     @ ''Connection: close'' @ CRLF @ ''Content-Length: 53'' @ CRLF @ CRLF
     @ ''<html><body><h1>502 Bad Gateway</h1></body></html>''"

text \<open>
  A tunnel in which the client sends two bytes, written upstream in two pieces, an idle
  period passes, and the upstream then closes.
\<close>

definition tunnel_run :: tunnel_env where
  "tunnel_run = \<lparr>tunnel_dial = dial_ok, established_sent = True,
     selects = [\<lparr>activity = 1, select_errno = EINTR, client_isset = True, server_isset = False\<rparr>,
                \<lparr>activity = 0, select_errno = EINTR, client_isset = False, server_isset = False\<rparr>,
                \<lparr>activity = 1, select_errno = EINTR, client_isset = False, server_isset = True\<rparr>],
     recvs = [Recv_data ''hi'', Recv_eof],
     sends = [(1, EAGAIN), (1, EAGAIN)],
     write_selects = []\<rparr>"

definition tunnel_sys :: sys where
  "tunnel_sys = \<lparr>keepAliveConnections = Map.empty,
     trace = [Ev_getaddrinfo ''example.com'' ''443'', Ev_socket 7, Ev_connect 7]\<rparr>"


section \<open>The connection pool: lookups do not remove\<close>

text \<open>
  Claim C1, as stated, at a pool that holds socket 5 for \<^verbatim>\<open>example.com:80\<close>: the first
  lookup returns 5, and so does a second one right after it, which therefore does not
  report absence.
\<close>

theorem get_twice_counterexample:
  "fst (getKeepAliveConnection ''example.com'' ''80'' pooled_sys) = 5
   \<and> fst (getKeepAliveConnection ''example.com'' ''80''
          (snd (getKeepAliveConnection ''example.com'' ''80'' pooled_sys))) = 5
   \<and> fst (getKeepAliveConnection ''example.com'' ''80''
          (snd (getKeepAliveConnection ''example.com'' ''80'' pooled_sys))) \<noteq> - 1"
  by (simp add: getKeepAliveConnection_def pooled_sys_def)

text \<open>
  Claim C1, amended: for every key present in the pool, the lookup returns the stored
  socket and leaves the pool as it was, so that a second lookup right after it returns
  the same socket; the lookup reports absence once the entry has been removed.
\<close>

theorem get_leaves_entry:
  "keepAliveConnections s (h @ '':'' @ p) = Some fd \<Longrightarrow>
     getKeepAliveConnection h p s = (fd, s)
     \<and> getKeepAliveConnection h p (snd (getKeepAliveConnection h p s)) = (fd, s)
     \<and> fst (getKeepAliveConnection h p (removeKeepAliveConnection h p s)) = - 1"
  by (simp add: getKeepAliveConnection_def removeKeepAliveConnection_def)

theorem get_leaves_entry_witness:
  "keepAliveConnections pooled_sys (''example.com'' @ '':'' @ ''80'') = Some 5
   \<and> getKeepAliveConnection ''example.com'' ''80'' pooled_sys = (5, pooled_sys)
   \<and> getKeepAliveConnection ''example.com'' ''80''
        (snd (getKeepAliveConnection ''example.com'' ''80'' pooled_sys)) = (5, pooled_sys)
   \<and> fst (getKeepAliveConnection ''example.com'' ''80''
          (removeKeepAliveConnection ''example.com'' ''80'' pooled_sys)) = - 1"
proof -
  have h: "keepAliveConnections pooled_sys (''example.com'' @ '':'' @ ''80'') = Some 5"
    by (simp add: pooled_sys_def)
  show ?thesis using h get_leaves_entry [OF h] by simp
qed


section \<open>Error responses\<close>

lemma error_response_400: "error_response 400 ''Bad Request'' = response_400"
  by code_simp

lemma error_response_502: "error_response 502 ''Bad Gateway'' = response_502"
  by code_simp

lemma dial_ok_fresh:
  "connectToServer dial_ok ''example.com'' ''80'' sys0 = (7, dialled_sys)"
  by (simp add: connectToServer_def getKeepAliveConnection_def newConnection_def emit_def
        dial_ok_def sys0_def dialled_sys_def)

lemma dial_down_fresh:
  "connectToServer dial_down ''example.com'' ''80'' sys0 = (- 1, emit (Ev_close 7) dialled_sys)"
  by (simp add: connectToServer_def getKeepAliveConnection_def newConnection_def emit_def
        dial_ok_def dial_down_def sys0_def dialled_sys_def)

text \<open>
  Claim C9, as stated, at a GET whose dial times out: the client receives the error
  response of section 4.3.5, whose body has 50 bytes and whose \<^verbatim>\<open>Content-Length\<close> is
  therefore 50; it differs from the response with the value 53.
\<close>

theorem bad_gateway_length_counterexample:
  "trace (snd (forwardGet (exchange dial_down []) get_req 4 sys0))
     = [Ev_getaddrinfo ''example.com'' ''80'', Ev_socket 7, Ev_connect 7, Ev_close 7,
        Ev_send 4 response_502]
   \<and> response_502 \<noteq> response_502_spec
   \<and> length (error_body 502 ''Bad Gateway'') = 50"
  by code_simp

text \<open>
  Claim C9, amended: for every request for which the dial fails, each of the three
  handlers sends the client exactly one message and returns; the message is the literal
  502 response with status line, \<^verbatim>\<open>Content-Type: text/html\<close>, \<^verbatim>\<open>Connection: close\<close>,
  \<^verbatim>\<open>Content-Length: 50\<close>, an empty line and the HTML body.
\<close>

theorem dial_failure_sends_502:
  "(fst (connectToServer (dial env) (host req) (port req) s) < 0 \<longrightarrow>
      forwardGet env req cli s =
        (Finished, emit (Ev_send cli response_502)
                     (snd (connectToServer (dial env) (host req) (port req) s))))
   \<and> (fst (connectToServer (dial env) (host req) (if port req = [] then ''80'' else port req) s) < 0 \<longrightarrow>
      forwardPost env req cli s =
        (Finished, emit (Ev_send cli response_502)
                     (snd (connectToServer (dial env) (host req)
                        (if port req = [] then ''80'' else port req) s))))
   \<and> (fst (connectToServer (tunnel_dial tenv) (host req) (port req) s) < 0 \<longrightarrow>
      forwardConnect tenv req cli s =
        (Finished, emit (Ev_send cli response_502)
                     (snd (connectToServer (tunnel_dial tenv) (host req) (port req) s))))"
  by (simp add: forwardGet_def forwardPost_def forwardConnect_def sendErrorResponse_def
        error_response_502 Let_def split: prod.splits)

theorem dial_failure_sends_502_witness:
  "fst (connectToServer dial_down ''example.com'' ''80'' sys0) < 0
   \<and> forwardGet (exchange dial_down []) get_req 4 sys0
        = (Finished, emit (Ev_send 4 response_502) (emit (Ev_close 7) dialled_sys))
   \<and> forwardPost (exchange dial_down []) post_req 4 sys0
        = (Finished, emit (Ev_send 4 response_502) (emit (Ev_close 7) dialled_sys))
   \<and> fst (connectToServer dial_down ''example.com'' ''443'' sys0) < 0
   \<and> forwardConnect (tunnel_run\<lparr>tunnel_dial := dial_down\<rparr>) connect_req 4 sys0
        = (Finished, emit (Ev_send 4 response_502) (emit (Ev_close 7) tunnel_sys))"
proof -
  have d: "connectToServer dial_down ''example.com'' ''80'' sys0 = (- 1, emit (Ev_close 7) dialled_sys)"
    by (rule dial_down_fresh)
  have t: "connectToServer dial_down ''example.com'' ''443'' sys0 = (- 1, emit (Ev_close 7) tunnel_sys)"
    by (simp add: connectToServer_def getKeepAliveConnection_def newConnection_def emit_def
        dial_ok_def dial_down_def sys0_def tunnel_sys_def)
  show ?thesis
    using dial_failure_sends_502 [of "exchange dial_down []" get_req sys0 4
            "tunnel_run\<lparr>tunnel_dial := dial_down\<rparr>"]
          dial_failure_sends_502 [of "exchange dial_down []" post_req sys0 4
            "tunnel_run\<lparr>tunnel_dial := dial_down\<rparr>"]
          dial_failure_sends_502 [of "exchange dial_down []" connect_req sys0 4
            "tunnel_run\<lparr>tunnel_dial := dial_down\<rparr>"]
    by (simp add: d t exchange_def get_req_def post_req_def connect_req_def tunnel_run_def)
qed


section \<open>The dialer: the liveness probe of a pooled socket\<close>

lemma newConnection_pool:
  "keepAliveConnections (snd (newConnection env h p s)) = keepAliveConnections s"
  by (simp add: newConnection_def emit_def Let_def)

lemma newConnection_trace:
  "\<exists>evs. trace (snd (newConnection env h p s)) = trace s @ Ev_getaddrinfo h p # evs"
  by (simp add: newConnection_def emit_def Let_def)

text \<open>
  Claim C5, as stated, at a pooled socket 5 whose peek fails with \<^verbatim>\<open>ECONNRESET\<close>: the
  dialer returns socket 5 as live; it closes nothing, dials nothing and leaves the entry
  in the pool.
\<close>

theorem peek_error_counterexample:
  "connectToServer (dial_ok\<lparr>peek_result := Recv_error ECONNRESET\<rparr>) ''example.com'' ''80''
       pooled_sys
     = (5, emit (Ev_peek 5) pooled_sys)
   \<and> keepAliveConnections (emit (Ev_peek 5) pooled_sys) ''example.com:80'' = Some 5
   \<and> trace (emit (Ev_peek 5) pooled_sys) = [Ev_peek 5]"
  by (simp add: connectToServer_def getKeepAliveConnection_def pooled_sys_def dial_ok_def
        emit_def)

text \<open>
  Claim C5, amended: for every dial that finds a pooled socket (a positive descriptor),
  the one-byte peek decides as follows. A peek that returns 0 causes the socket to be
  closed and its entry removed, and the dialer goes on with a new connection, starting
  with the name lookup. Any other result of the peek, be it pending data, \<^verbatim>\<open>EAGAIN\<close> or
  another error, causes the pooled socket to be returned as live, with no other system
  call and the pool unchanged.
\<close>

theorem peek_decides_liveness:
  assumes "keepAliveConnections s (h @ '':'' @ p) = Some fd" and "0 < fd"
  shows "(recv_ret (peek_result env) = 0 \<longrightarrow>
            connectToServer env h p s =
              newConnection env h p
                (removeKeepAliveConnection h p (emit (Ev_close fd) (emit (Ev_peek fd) s)))
            \<and> keepAliveConnections (snd (connectToServer env h p s)) (h @ '':'' @ p) = None
            \<and> (\<exists>evs. trace (snd (connectToServer env h p s)) =
                   trace s @ [Ev_peek fd, Ev_close fd, Ev_getaddrinfo h p] @ evs))
       \<and> (recv_ret (peek_result env) \<noteq> 0 \<longrightarrow>
            connectToServer env h p s = (fd, emit (Ev_peek fd) s))"
proof (intro conjI impI)
  assume z: "recv_ret (peek_result env) = 0"
  show eq: "connectToServer env h p s =
      newConnection env h p
        (removeKeepAliveConnection h p (emit (Ev_close fd) (emit (Ev_peek fd) s)))"
    using assms z by (simp add: connectToServer_def getKeepAliveConnection_def)
  show "keepAliveConnections (snd (connectToServer env h p s)) (h @ '':'' @ p) = None"
    by (simp add: eq newConnection_pool removeKeepAliveConnection_def emit_def)
  show "\<exists>evs. trace (snd (connectToServer env h p s)) =
           trace s @ [Ev_peek fd, Ev_close fd, Ev_getaddrinfo h p] @ evs"
    using newConnection_trace [of env h p
        "removeKeepAliveConnection h p (emit (Ev_close fd) (emit (Ev_peek fd) s))"]
    by (simp add: eq removeKeepAliveConnection_def emit_def)
next
  assume "recv_ret (peek_result env) \<noteq> 0"
  then show "connectToServer env h p s = (fd, emit (Ev_peek fd) s)"
    using assms by (simp add: connectToServer_def getKeepAliveConnection_def)
qed

theorem peek_decides_liveness_witness:
  "keepAliveConnections pooled_sys (''example.com'' @ '':'' @ ''80'') = Some 5
   \<and> recv_ret (peek_result (dial_ok\<lparr>peek_result := Recv_eof\<rparr>)) = 0
   \<and> fst (connectToServer (dial_ok\<lparr>peek_result := Recv_eof\<rparr>) ''example.com'' ''80'' pooled_sys) = 7
   \<and> keepAliveConnections
        (snd (connectToServer (dial_ok\<lparr>peek_result := Recv_eof\<rparr>) ''example.com'' ''80''
                pooled_sys)) (''example.com'' @ '':'' @ ''80'') = None
   \<and> trace (snd (connectToServer (dial_ok\<lparr>peek_result := Recv_eof\<rparr>) ''example.com'' ''80''
                pooled_sys))
       = [Ev_peek 5, Ev_close 5, Ev_getaddrinfo ''example.com'' ''80'', Ev_socket 7, Ev_connect 7]
   \<and> recv_ret (peek_result dial_ok) \<noteq> 0
   \<and> connectToServer dial_ok ''example.com'' ''80'' pooled_sys = (5, emit (Ev_peek 5) pooled_sys)"
proof -
  have h: "keepAliveConnections pooled_sys (''example.com'' @ '':'' @ ''80'') = Some 5"
    by (simp add: pooled_sys_def)
  have pos: "(0::int) < 5" by simp
  have z: "recv_ret (peek_result (dial_ok\<lparr>peek_result := Recv_eof\<rparr>)) = 0" by simp
  have nz: "recv_ret (peek_result dial_ok) \<noteq> 0" by (simp add: dial_ok_def)
  have new: "newConnection (dial_ok\<lparr>peek_result := Recv_eof\<rparr>) ''example.com'' ''80''
        (removeKeepAliveConnection ''example.com'' ''80''
           (emit (Ev_close 5) (emit (Ev_peek 5) pooled_sys)))
      = (7, \<lparr>keepAliveConnections = Map.empty,
             trace = [Ev_peek 5, Ev_close 5, Ev_getaddrinfo ''example.com'' ''80'',
                      Ev_socket 7, Ev_connect 7]\<rparr>)"
    by (simp add: newConnection_def removeKeepAliveConnection_def emit_def dial_ok_def
          pooled_sys_def)
  show ?thesis
    using peek_decides_liveness [OF h pos, of "dial_ok\<lparr>peek_result := Recv_eof\<rparr>"]
          peek_decides_liveness [OF h pos, of dial_ok] h z nz new
    by simp
qed


section \<open>POST: the request framing is checked after the dial\<close>

text \<open>
  Claim C6, as stated, at a POST with \<^verbatim>\<open>Content-Length: not-a-number\<close> and a body of
  three bytes: when the upstream can be reached, the handler has looked the name up,
  created socket 7 and connected it before it answers 400; when the upstream cannot be
  reached, the client receives 502 and no 400.
\<close>

theorem post_dials_first_counterexample:
  "trace (snd (forwardPost (exchange dial_ok []) post_req 4 sys0))
     = [Ev_getaddrinfo ''example.com'' ''80'', Ev_socket 7, Ev_connect 7, Ev_close 7,
        Ev_send 4 response_400]
   \<and> trace (snd (forwardPost (exchange dial_down []) post_req 4 sys0))
     = [Ev_getaddrinfo ''example.com'' ''80'', Ev_socket 7, Ev_connect 7, Ev_close 7,
        Ev_send 4 response_502]"
  by code_simp

lemma requestFraming_throws:
  "headers_find req ''Content-Length'' = Some v \<Longrightarrow> stoul v = Inl e \<Longrightarrow>
     requestFraming req = Inl e"
  by (simp add: requestFraming_def)

text \<open>
  Claim C6, amended: for every POST request whose \<^verbatim>\<open>Content-Length\<close> value cannot be
  converted, or whose headers give a length of 0 (or none) and no chunked
  \<^verbatim>\<open>Transfer-Encoding\<close> while the body is non-empty, the handler dials the upstream
  first. When the dial succeeds it closes the socket it has obtained, emits
  \<^verbatim>\<open>400 Bad Request\<close> and returns without writing anything to the upstream; when the
  dial fails it emits \<^verbatim>\<open>502 Bad Gateway\<close>.
\<close>

theorem bad_framing_rejected_after_dial:
  assumes "connectToServer (dial env) (host req) (if port req = [] then ''80'' else port req) s
             = (srv, s1)"
    and "(\<exists>v e. headers_find req ''Content-Length'' = Some v \<and> stoul v = Inl e)
         \<or> (requestFraming req = Inr (0, False) \<and> body req \<noteq> [])"
  shows "forwardPost env req cli s =
           (if srv < 0 then (Finished, emit (Ev_send cli response_502) s1)
            else (Finished, emit (Ev_send cli response_400) (emit (Ev_close srv) s1)))"
  using assms
  by (auto simp add: forwardPost_def sendErrorResponse_def error_response_502
        error_response_400 Let_def requestFraming_throws)

theorem bad_framing_rejected_after_dial_witness:
  "connectToServer (dial (exchange dial_ok [])) (host post_req)
       (if port post_req = [] then ''80'' else port post_req) sys0 = (7, dialled_sys)
   \<and> headers_find post_req ''Content-Length'' = Some ''not-a-number''
   \<and> stoul ''not-a-number'' = Inl Invalid_argument
   \<and> forwardPost (exchange dial_ok []) post_req 4 sys0
        = (Finished, emit (Ev_send 4 response_400) (emit (Ev_close 7) dialled_sys))"
proof -
  have d: "connectToServer (dial (exchange dial_ok [])) (host post_req)
       (if port post_req = [] then ''80'' else port post_req) sys0 = (7, dialled_sys)"
    using dial_ok_fresh by (simp add: exchange_def post_req_def)
  have f: "headers_find post_req ''Content-Length'' = Some ''not-a-number''"
    by (simp add: headers_find_def post_req_def)
  have t: "stoul ''not-a-number'' = Inl Invalid_argument"
    by (simp add: stoul_def isspace_def isdigit_def)
  have bad: "(\<exists>v e. headers_find post_req ''Content-Length'' = Some v \<and> stoul v = Inl e)
         \<or> (requestFraming post_req = Inr (0, False) \<and> body post_req \<noteq> [])"
    using f t by blast
  show ?thesis
    using bad_framing_rejected_after_dial [OF d bad, of 4] d f t by simp
qed


section \<open>Searching in a string that grows\<close>

lemma find_str_bound:
  "find_str pat xs = Some e \<Longrightarrow> e + length pat \<le> length xs"
proof (induction xs arbitrary: e)
  case Nil
  then show ?case by (auto split: if_splits)
next
  case (Cons c cs)
  show ?case
  proof (cases "prefix pat (c # cs)")
    case True
    with Cons.prems show ?thesis by (auto dest: prefix_length_le)
  next
    case False
    with Cons.prems obtain e' where "find_str pat cs = Some e'" "e = Suc e'" by auto
    with Cons.IH show ?thesis by auto
  qed
qed

lemma find_str_append:
  "find_str pat xs = Some e \<Longrightarrow> find_str pat (xs @ ys) = Some e"
proof (induction xs arbitrary: e)
  case Nil
  then show ?case by (cases ys) (auto split: if_splits)
next
  case (Cons c cs)
  show ?case
  proof (cases "prefix pat (c # cs)")
    case True
    then have "prefix pat ((c # cs) @ ys)" by (metis prefix_prefix)
    with True Cons.prems show ?thesis by simp
  next
    case False
    with Cons.prems obtain e' where e': "find_str pat cs = Some e'" "e = Suc e'" by auto
    from Cons.IH [OF e'(1)] have rec: "find_str pat (cs @ ys) = Some e'" .
    from find_str_bound [OF e'(1)] have len: "length pat \<le> length (c # cs)" by simp
    have "\<not> prefix pat ((c # cs) @ ys)"
    proof
      assume "prefix pat ((c # cs) @ ys)"
      then have "prefix pat (c # cs) \<or> (\<exists>us. pat = (c # cs) @ us \<and> prefix us ys)"
        by (simp only: prefix_append)
      with False len show False by auto
    qed
    with rec e' show ?thesis by simp
  qed
qed

lemma find_str_None_append:
  "find_str pat (xs @ ys) = None \<Longrightarrow> find_str pat xs = None"
  by (metis find_str_append not_Some_eq)

lemma take_within: "e \<le> length xs \<Longrightarrow> take e (xs @ ys) = take e xs"
  by simp


section \<open>The response loop while the header block is incomplete\<close>

lemma headerStep_incomplete:
  "find_str CRLFCRLF (responseHeaders r @ buf) = None \<Longrightarrow>
     headerStep cli buf ok r tr = (Continue, r\<lparr>responseHeaders := responseHeaders r @ buf\<rparr>, tr)"
  by (simp add: headerStep_def)

text \<open>
  Reads that leave the header block incomplete are accumulated and nothing is sent on;
  the loop then goes on with the next read.
\<close>

lemma header_phase:
  assumes "\<not> headersComplete r"
    and "\<forall>x\<in>set pre. 0 < recv_ret (fst x)"
    and "find_str CRLFCRLF (responseHeaders r @ received pre) = None"
  shows "responseLoop srv cli (pre @ (rr, ok) # rest) r tr
     = responseLoop srv cli ((rr, ok) # rest)
         (r\<lparr>responseHeaders := responseHeaders r @ received pre\<rparr>)
         (tr @ replicate (length pre) (Ev_recv srv))"
  using assms
proof (induction pre arbitrary: r tr)
  case Nil
  then show ?case by (simp add: received_def)
next
  case (Cons y pre)
  obtain rr1 ok1 where y: "y = (rr1, ok1)" by (cases y)
  let ?acc = "responseHeaders r @ recv_buf rr1"
  let ?r1 = "r\<lparr>bytesRead := recv_ret rr1\<rparr>"
  have pos: "0 < recv_ret rr1" using Cons.prems(2) y by simp
  have rec: "received (y # pre) = recv_buf rr1 @ received pre"
    by (simp add: received_def y)
  have none_all: "find_str CRLFCRLF (?acc @ received pre) = None"
    using Cons.prems(3) rec by simp
  then have none: "find_str CRLFCRLF ?acc = None" by (rule find_str_None_append)
  have step: "headerStep cli (recv_buf rr1) ok1 ?r1 (tr @ [Ev_recv srv])
      = (Continue, ?r1\<lparr>responseHeaders := ?acc\<rparr>, tr @ [Ev_recv srv])"
    using none by (simp add: headerStep_incomplete)
  have "responseLoop srv cli ((y # pre) @ (rr, ok) # rest) r tr
      = responseLoop srv cli (pre @ (rr, ok) # rest) (?r1\<lparr>responseHeaders := ?acc\<rparr>)
          (tr @ [Ev_recv srv])"
    using y pos Cons.prems(1) step by (simp add: Let_def)
  also have "\<dots> = responseLoop srv cli ((rr, ok) # rest)
       (?r1\<lparr>responseHeaders := ?acc @ received pre\<rparr>)
       ((tr @ [Ev_recv srv]) @ replicate (length pre) (Ev_recv srv))"
    using Cons.IH [of "?r1\<lparr>responseHeaders := ?acc\<rparr>" "tr @ [Ev_recv srv]"]
      Cons.prems(1,2) none_all by simp
  also have "\<dots> = responseLoop srv cli ((rr, ok) # rest)
       (r\<lparr>responseHeaders := responseHeaders r @ received (y # pre)\<rparr>)
       (tr @ replicate (length (y # pre)) (Ev_recv srv))"
    by (simp add: rec replicate_append_same)
  finally show ?case .
qed


section \<open>A response without framing headers\<close>

text \<open>
  Claim C2, as stated, at a response whose header block \<^verbatim>\<open>HTTP/1.1 200 OK\<close> arrives in
  the first read, followed by the read \<^verbatim>\<open>hello\<close> and then the end of the stream: the
  handler sends the header block on, stops reading after that one read, and closes the
  upstream socket. The bytes \<^verbatim>\<open>hello\<close> are never read and never reach the client.
\<close>

theorem no_framing_counterexample:
  "fst (forwardGet (exchange dial_ok
          [(Recv_data bare_response, True), (Recv_data ''hello'', True), (Recv_eof, True)])
          get_req 4 sys0) = Finished
   \<and> trace (snd (forwardGet (exchange dial_ok
          [(Recv_data bare_response, True), (Recv_data ''hello'', True), (Recv_eof, True)])
          get_req 4 sys0))
     = [Ev_getaddrinfo ''example.com'' ''80'', Ev_socket 7, Ev_connect 7, Ev_send 7 forwarded_get,
        Ev_recv 7, Ev_send 4 bare_response, Ev_close 7]"
  by code_simp

text \<open>
  Claim C2, amended: for every response whose header block contains neither
  \<^verbatim>\<open>Content-Length: \<close> nor \<^verbatim>\<open>Transfer-Encoding: chunked\<close>, the response loop reads
  until the header block is complete, sends the client, in one write, all bytes received
  up to and including the read that completes it, and terminates there: it makes no
  further read, whatever the upstream would deliver next. Here \<open>pre\<close> are the reads
  that leave the header block incomplete, \<open>rr\<close> is the read that completes it, and
  \<open>rest\<close> is what the upstream would deliver afterwards.
\<close>

theorem no_framing_stops_after_headers:
  assumes "\<forall>x\<in>set pre. 0 < recv_ret (fst x)"
    and "0 < recv_ret rr"
    and "find_str CRLFCRLF (received pre) = None"
    and "find_str CRLFCRLF (received pre @ recv_buf rr) = Some headerEnd"
    and "find_str ''Content-Length: '' (take headerEnd (received pre @ recv_buf rr)) = None"
    and "find_str ''Transfer-Encoding: chunked'' (take headerEnd (received pre @ recv_buf rr)) = None"
  shows "fst (responseLoop srv cli (pre @ (rr, ok) # rest) resp_init tr) = Finished
     \<and> snd (snd (responseLoop srv cli (pre @ (rr, ok) # rest) resp_init tr))
         = tr @ replicate (Suc (length pre)) (Ev_recv srv)
              @ [Ev_send cli (received pre @ recv_buf rr)]"
proof -
  have "responseLoop srv cli (pre @ (rr, ok) # rest) resp_init tr
      = responseLoop srv cli ((rr, ok) # rest)
          (resp_init\<lparr>responseHeaders := received pre\<rparr>)
          (tr @ replicate (length pre) (Ev_recv srv))"
    using header_phase [of resp_init pre srv cli rr ok rest tr] assms(1,3)
    by (simp add: resp_init_def)
  moreover have "responseLoop srv cli ((rr, ok) # rest)
          (resp_init\<lparr>responseHeaders := received pre\<rparr>)
          (tr @ replicate (length pre) (Ev_recv srv))
     = (Finished,
        resp_init\<lparr>responseHeaders := received pre @ recv_buf rr, headersComplete := True,
          keepAliveServer := find_str ''Connection: keep-alive''
             (take headerEnd (received pre @ recv_buf rr)) \<noteq> None,
          receivedBodyBytes := length (received pre @ recv_buf rr) - (headerEnd + 4),
          bytesRead := recv_ret rr\<rparr>,
        tr @ replicate (Suc (length pre)) (Ev_recv srv)
           @ [Ev_send cli (received pre @ recv_buf rr)])"
    using assms(2,4,5,6)
    by (simp add: resp_init_def headerStep_def parseContentLength_def Let_def
          replicate_append_same)
  ultimately show ?thesis by simp
qed

theorem no_framing_stops_after_headers_witness:
  "find_str CRLFCRLF (received [(Recv_data ''HTTP/1.1 200 OK'', True)]) = None
   \<and> find_str CRLFCRLF (received [(Recv_data ''HTTP/1.1 200 OK'', True)]
        @ recv_buf (Recv_data (CRLFCRLF @ ''he''))) = Some 15
   \<and> fst (responseLoop 7 4
        ([(Recv_data ''HTTP/1.1 200 OK'', True)] @ (Recv_data (CRLFCRLF @ ''he''), True)
           # [(Recv_data ''llo'', True), (Recv_eof, True)]) resp_init []) = Finished
   \<and> snd (snd (responseLoop 7 4
        ([(Recv_data ''HTTP/1.1 200 OK'', True)] @ (Recv_data (CRLFCRLF @ ''he''), True)
           # [(Recv_data ''llo'', True), (Recv_eof, True)]) resp_init []))
       = [Ev_recv 7, Ev_recv 7, Ev_send 4 (''HTTP/1.1 200 OK'' @ CRLFCRLF @ ''he'')]"
proof -
  let ?pre = "[(Recv_data ''HTTP/1.1 200 OK'', True)]"
  let ?rr = "Recv_data (CRLFCRLF @ ''he'')"
  have h1: "\<forall>x\<in>set ?pre. 0 < recv_ret (fst x)" by simp
  have h2: "0 < recv_ret ?rr" by simp
  have h3: "find_str CRLFCRLF (received ?pre) = None" by (simp add: received_def)
  have h4: "find_str CRLFCRLF (received ?pre @ recv_buf ?rr) = Some 15"
    by (simp add: received_def)
  have h5: "find_str ''Content-Length: '' (take 15 (received ?pre @ recv_buf ?rr)) = None"
    by (simp add: received_def)
  have h6: "find_str ''Transfer-Encoding: chunked'' (take 15 (received ?pre @ recv_buf ?rr)) = None"
    by (simp add: received_def)
  show ?thesis
    using no_framing_stops_after_headers [OF h1 h2 h3 h4 h5 h6, of 7 4 True
            "[(Recv_data ''llo'', True), (Recv_eof, True)]" "[]"] h3 h4
    by (simp add: received_def)
qed


section \<open>A chunked response that ends in the read that ends the headers\<close>

text \<open>
  Claim C3 at scenario S3, the header block and the whole chunked body in one read of 62
  bytes: the handler sends all of them on and then, although they end with the
  terminator, calls \<^verbatim>\<open>recv\<close> again. It waits there as long as the upstream keeps the
  connection open, and returns only when a later read ends the stream. The test for the
  terminator is made only on reads that come after the one that completes the headers.
\<close>

theorem chunked_terminator_in_header_read:
  "length s3_response = 62
   \<and> forwardGet (exchange dial_ok [(Recv_data s3_response, True)]) get_req 4 sys0
     = (Blocked,
        dialled_sys\<lparr>trace := trace dialled_sys
           @ [Ev_send 7 forwarded_get, Ev_recv 7, Ev_send 4 s3_response]\<rparr>)
   \<and> forwardGet (exchange dial_ok [(Recv_data s3_response, True), (Recv_eof, True)]) get_req 4 sys0
     = (Finished,
        dialled_sys\<lparr>trace := trace dialled_sys
           @ [Ev_send 7 forwarded_get, Ev_recv 7, Ev_send 4 s3_response, Ev_recv 7, Ev_close 7]\<rparr>)"
  by (simp add: forwardGet_def exchange_def dial_ok_fresh get_req_def s3_response_def
        forwarded_get_def emit_def buildForwardRequest_def hop_by_hop_def c_str_def tolower_def
        forwardResponse_def resp_init_def headerStep_def parseContentLength_def
        finishExchange_def dialled_sys_def Let_def)


section \<open>A response whose Content-Length is not a number\<close>

text \<open>
  Claim C10 at the header block \<^verbatim>\<open>HTTP/1.1 200 OK\<close>, \<^verbatim>\<open>Content-Length: abc\<close>: the
  conversion raises \<^verbatim>\<open>std::invalid_argument\<close>, which nothing in the response loop of
  either handler catches. The exception leaves the handler before anything is sent to
  the client and before the upstream socket is closed or pooled.
\<close>

theorem response_length_conversion_throws:
  "forwardGet (exchange dial_ok [(Recv_data bad_length_response, True)]) get_req 4 sys0
     = (Threw Invalid_argument,
        dialled_sys\<lparr>trace := trace dialled_sys @ [Ev_send 7 forwarded_get, Ev_recv 7]\<rparr>)
   \<and> fst (forwardPost (exchange dial_ok [(Recv_data bad_length_response, True)]) post_ok_req 4 sys0)
     = Threw Invalid_argument"
  by (simp add: forwardGet_def forwardPost_def exchange_def dial_ok_fresh get_req_def
        post_ok_req_def bad_length_response_def requestFraming_def headers_find_def
        forwarded_get_def emit_def buildForwardRequest_def hop_by_hop_def c_str_def tolower_def
        forwardResponse_def resp_init_def headerStep_def parseContentLength_def lengthStr_of_def
        find_from_def stoul_def isspace_def isdigit_def digit_val_def ULONG_MAX_def
        dialled_sys_def Let_def)


section \<open>Keep-alive: which sockets go to the pool\<close>

lemma upstream_bytes_data:
  "0 < recv_ret rr \<Longrightarrow> upstream_bytes ((rr, ok) # script) = recv_buf rr @ upstream_bytes script"
  by (simp add: upstream_bytes_def)

lemma upstream_bytes_stop:
  "\<not> 0 < recv_ret rr \<Longrightarrow> upstream_bytes ((rr, ok) # script) = []"
  by (simp add: upstream_bytes_def)

lemma headerStep_complete:
  assumes "find_str CRLFCRLF (responseHeaders r @ buf) = Some e"
    and "headerStep cli buf ok r tr = (fl, r', tr')"
  shows "responseHeaders r' = responseHeaders r @ buf \<and> headersComplete r'
     \<and> keepAliveServer r' = (keepAliveServer r \<or>
          find_str ''Connection: keep-alive'' (take e (responseHeaders r @ buf)) \<noteq> None)"
  using assms
  by (auto simp add: headerStep_def Let_def split: sum.splits if_splits)

lemma bodyStep_flags:
  assumes "bodyStep cli buf ok r tr = (fl, r', tr')"
  shows "responseHeaders r' = responseHeaders r \<and> headersComplete r' = headersComplete r
     \<and> keepAliveServer r' = keepAliveServer r \<and> fl \<noteq> Throw x"
  using assms
  by (auto simp add: bodyStep_def Let_def split: if_splits)

text \<open>
  The flag \<open>keepAliveServer\<close> at the end of the loop says whether the upstream
  advertised keep-alive, however the loop has ended.
\<close>

lemma responseLoop_keepAlive:
  assumes "responseLoop srv cli script r tr = (Finished, r', tr')"
    and "\<not> headersComplete r \<longrightarrow>
           \<not> keepAliveServer r \<and> find_str CRLFCRLF (responseHeaders r) = None"
  shows "keepAliveServer r' =
           (if headersComplete r then keepAliveServer r
            else advertised_from (responseHeaders r) script)"
  using assms
proof (induction script arbitrary: r tr)
  case Nil
  then show ?case by simp
next
  case (Cons x script)
  obtain rr ok where x: "x = (rr, ok)" by (cases x)
  let ?r1 = "r\<lparr>bytesRead := recv_ret rr\<rparr>" and ?tr1 = "tr @ [Ev_recv srv]"
  show ?case
  proof (cases "0 < recv_ret rr")
    case False
    with Cons.prems x have "r' = ?r1" by simp
    with False Cons.prems(2) x show ?thesis
      by (simp add: advertised_from_def upstream_bytes_stop)
  next
    case pos: True
    show ?thesis
    proof (cases "headersComplete r")
      case True
      obtain fl r2 tr2 where st: "bodyStep cli (recv_buf rr) ok ?r1 ?tr1 = (fl, r2, tr2)"
        by (metis prod_cases3)
      from bodyStep_flags [OF st] True
      have fl: "headersComplete r2" "keepAliveServer r2 = keepAliveServer r" by simp_all
      show ?thesis
      proof (cases fl)
        case Continue
        with Cons.prems(1) x pos True st
        have "responseLoop srv cli script r2 tr2 = (Finished, r', tr')" by (simp add: Let_def)
        from Cons.IH [OF this] fl True show ?thesis by simp
      next
        case Break
        with Cons.prems(1) x pos True st have "r' = r2" by (simp add: Let_def)
        with fl True show ?thesis by simp
      next
        case (Throw e)
        with Cons.prems(1) x pos True st show ?thesis by (simp add: Let_def)
      qed
    next
      case False
      with Cons.prems(2) have nk: "\<not> keepAliveServer r" by simp
      let ?acc = "responseHeaders r @ recv_buf rr"
      have ub: "upstream_bytes (x # script) = recv_buf rr @ upstream_bytes script"
        using pos x by (simp add: upstream_bytes_data)
      have all: "responseHeaders r @ upstream_bytes (x # script) = ?acc @ upstream_bytes script"
        by (simp add: ub)
      show ?thesis
      proof (cases "find_str CRLFCRLF ?acc")
        case None
        then have "headerStep cli (recv_buf rr) ok ?r1 ?tr1
            = (Continue, ?r1\<lparr>responseHeaders := ?acc\<rparr>, ?tr1)"
          by (simp add: headerStep_incomplete)
        with Cons.prems(1) x pos False
        have "responseLoop srv cli script (?r1\<lparr>responseHeaders := ?acc\<rparr>) ?tr1
                = (Finished, r', tr')"
          by (simp add: Let_def)
        from Cons.IH [OF this] False nk None
        have "keepAliveServer r' = advertised_from ?acc script" by simp
        also have "\<dots> = advertised_from (responseHeaders r) (x # script)"
          by (simp only: advertised_from_def all)
        finally show ?thesis using False by simp
      next
        case (Some e)
        obtain fl r2 tr2 where st: "headerStep cli (recv_buf rr) ok ?r1 ?tr1 = (fl, r2, tr2)"
          by (metis prod_cases3)
        from headerStep_complete [OF _ st, of e] Some nk
        have r2: "headersComplete r2"
          "keepAliveServer r2 = (find_str ''Connection: keep-alive'' (take e ?acc) \<noteq> None)"
          by simp_all
        have f1: "find_str CRLFCRLF (?acc @ upstream_bytes script) = Some e"
          using Some by (rule find_str_append)
        have "e \<le> length ?acc"
          using find_str_bound [OF Some] by simp
        then have f2: "take e (?acc @ upstream_bytes script) = take e ?acc"
          by (rule take_within)
        have adv: "advertised_from (responseHeaders r) (x # script) = keepAliveServer r2"
          by (simp only: advertised_from_def all f1 f2 option.case r2)
        show ?thesis
        proof (cases fl)
          case Continue
          with Cons.prems(1) x pos False st
          have "responseLoop srv cli script r2 tr2 = (Finished, r', tr')" by (simp add: Let_def)
          from Cons.IH [OF this] r2 adv False show ?thesis by simp
        next
          case Break
          with Cons.prems(1) x pos False st have "r' = r2" by (simp add: Let_def)
          with adv False show ?thesis by simp
        next
          case (Throw e)
          with Cons.prems(1) x pos False st show ?thesis by (simp add: Let_def)
        qed
      qed
    qed
  qed
qed

lemma advertised_from_Nil: "advertised_from [] script = advertises_keep_alive script"
  by (simp add: advertised_from_def advertises_keep_alive_def cong: option.case_cong)

lemma forwardResponse_pool:
  assumes "forwardResponse h p srv cli script s = (Finished, s')"
  shows "pooled_iff_advertised h p srv script s s'"
proof -
  obtain st r tr where loop: "responseLoop srv cli script resp_init (trace s) = (st, r, tr)"
    by (metis prod_cases3)
  with assms have st: "st = Finished" and s': "s' = finishExchange h p srv r (s\<lparr>trace := tr\<rparr>)"
    by (cases st; simp add: forwardResponse_def)+
  from loop st have "keepAliveServer r = advertised_from (responseHeaders resp_init) script"
    using responseLoop_keepAlive [of srv cli script resp_init "trace s" r tr]
    by (simp add: resp_init_def)
  then have ka: "keepAliveServer r = advertises_keep_alive script"
    by (simp add: resp_init_def advertised_from_Nil)
  show ?thesis
    unfolding pooled_iff_advertised_def s'
    by (simp add: ka finishExchange_def saveKeepAliveConnection_def emit_def Let_def
          split: option.splits)
qed

lemma pooled_iff_advertised_pool:
  "pooled_iff_advertised h p srv script s2 s' \<Longrightarrow>
     keepAliveConnections s2 = keepAliveConnections s1 \<Longrightarrow>
     pooled_iff_advertised h p srv script s1 s'"
  by (cases "advertises_keep_alive script") (simp_all add: pooled_iff_advertised_def)

text \<open>
  Claim C4, as stated, at a GET whose upstream answers with \<^verbatim>\<open>Connection: keep-alive\<close>
  and \<^verbatim>\<open>Content-Length: 10\<close>, delivers two bytes of the body and then fails with
  \<^verbatim>\<open>ECONNRESET\<close>: the handler closes nothing and stores socket 7 in the pool.
\<close>

theorem read_error_pooled_counterexample:
  "fst (forwardGet (exchange dial_ok
          (error_after keep_alive_response))
          get_req 4 sys0) = Finished
   \<and> trace (snd (forwardGet (exchange dial_ok
          (error_after keep_alive_response))
          get_req 4 sys0))
     = [Ev_getaddrinfo ''example.com'' ''80'', Ev_socket 7, Ev_connect 7, Ev_send 7 forwarded_get,
        Ev_recv 7, Ev_send 4 keep_alive_response, Ev_recv 7]
   \<and> keepAliveConnections (snd (forwardGet (exchange dial_ok
          (error_after keep_alive_response))
          get_req 4 sys0)) ''example.com:80'' = Some 7"
  by (simp add: forwardGet_def exchange_def dial_ok_fresh get_req_def keep_alive_response_def
        error_after_def forwarded_get_def emit_def buildForwardRequest_def hop_by_hop_def c_str_def tolower_def
        forwardResponse_def resp_init_def headerStep_def bodyStep_def parseContentLength_def
        lengthStr_of_def find_from_def stoul_def isspace_def isdigit_def digit_val_def
        ULONG_MAX_def finishExchange_def saveKeepAliveConnection_def dialled_sys_def Let_def)

text \<open>
  Claim C4, amended: for every GET or POST exchange that reaches the response loop and
  returns, whether the final upstream read returned data, the end of the stream or an
  error, the upstream socket is handed to the pool if the header block of the response
  contains \<^verbatim>\<open>Connection: keep-alive\<close>; otherwise it is closed as the last action and
  the pool is left as it was. A POST reaches the response loop when its framing is
  accepted, the request is written, and the rest of a chunked body, where one is
  outstanding, has been passed on.
\<close>

theorem pooling_follows_keep_alive:
  "(connectToServer (dial env) (host req) (port req) s = (srv, s1) \<and> 0 \<le> srv
      \<and> request_sent env
      \<and> forwardGet env req cli s = (Finished, s')
    \<longrightarrow> pooled_iff_advertised (host req) (port req) srv (response env) s1 s')
   \<and> (connectToServer (dial env) (host req) (if port req = [] then ''80'' else port req) s
          = (srv, s1) \<and> 0 \<le> srv
      \<and> requestFraming req = Inr (n, ch) \<and> \<not> (n = 0 \<and> \<not> ch \<and> body req \<noteq> [])
      \<and> request_sent env
      \<and> (ch \<and> find_str (CHR ''0'' # CRLFCRLF) (body req) = None \<longrightarrow>
            fst (readChunks srv cli (client_chunks env)
                   (trace s1 @ [Ev_send srv (buildForwardRequest req @ body req)]))
              = Chunks_complete)
      \<and> forwardPost env req cli s = (Finished, s')
    \<longrightarrow> pooled_iff_advertised (host req) (if port req = [] then ''80'' else port req) srv
          (response env) s1 s')"
proof (intro conjI impI)
  assume a: "connectToServer (dial env) (host req) (port req) s = (srv, s1) \<and> 0 \<le> srv
      \<and> request_sent env \<and> forwardGet env req cli s = (Finished, s')"
  let ?s2 = "emit (Ev_send srv (buildForwardRequest req)) s1"
  from a have d: "connectToServer (dial env) (host req) (port req) s = (srv, s1)"
    and ok: "0 \<le> srv" and sent: "request_sent env"
    and fin: "forwardGet env req cli s = (Finished, s')"
    by simp_all
  from fin d ok sent
  have "forwardResponse (host req) (port req) srv cli (response env) ?s2 = (Finished, s')"
    by (simp add: forwardGet_def Let_def)
  from forwardResponse_pool [OF this]
  have "pooled_iff_advertised (host req) (port req) srv (response env) ?s2 s'" .
  moreover have "keepAliveConnections ?s2 = keepAliveConnections s1"
    by (simp add: emit_def)
  ultimately show "pooled_iff_advertised (host req) (port req) srv (response env) s1 s'"
    by (rule pooled_iff_advertised_pool)
next
  let ?p = "if port req = [] then ''80'' else port req"
  assume a: "connectToServer (dial env) (host req) ?p s = (srv, s1) \<and> 0 \<le> srv
      \<and> requestFraming req = Inr (n, ch) \<and> \<not> (n = 0 \<and> \<not> ch \<and> body req \<noteq> [])
      \<and> request_sent env
      \<and> (ch \<and> find_str (CHR ''0'' # CRLFCRLF) (body req) = None \<longrightarrow>
            fst (readChunks srv cli (client_chunks env)
                   (trace s1 @ [Ev_send srv (buildForwardRequest req @ body req)]))
              = Chunks_complete)
      \<and> forwardPost env req cli s = (Finished, s')"
  from a have d: "connectToServer (dial env) (host req) ?p s = (srv, s1)"
    and ok: "0 \<le> srv" and fr: "requestFraming req = Inr (n, ch)"
    and acc: "\<not> (n = 0 \<and> \<not> ch \<and> body req \<noteq> [])" and sent: "request_sent env"
    and chunks: "ch \<and> find_str (CHR ''0'' # CRLFCRLF) (body req) = None \<longrightarrow>
            fst (readChunks srv cli (client_chunks env)
                   (trace s1 @ [Ev_send srv (buildForwardRequest req @ body req)]))
              = Chunks_complete"
    and fin: "forwardPost env req cli s = (Finished, s')"
    by simp_all
  from acc have acc': "(n = 0 \<and> \<not> ch \<and> body req \<noteq> []) = False" by simp
  let ?s2 = "emit (Ev_send srv (buildForwardRequest req @ body req)) s1"
  have tr2: "trace ?s2 = trace s1 @ [Ev_send srv (buildForwardRequest req @ body req)]"
    by (simp add: emit_def)
  show "pooled_iff_advertised (host req) ?p srv (response env) s1 s'"
  proof (cases "ch \<and> find_str (CHR ''0'' # CRLFCRLF) (body req) = None")
    case False
    then have nc: "(ch \<and> find_str (CHR ''0'' # CRLFCRLF) (body req) = None) = False" by simp
    from fin [unfolded forwardPost_def Let_def d prod.case fr sum.case acc' nc] ok sent
    have "forwardResponse (host req) ?p srv cli (response env) ?s2 = (Finished, s')"
      by simp
    from forwardResponse_pool [OF this]
    have "pooled_iff_advertised (host req) ?p srv (response env) ?s2 s'" .
    moreover have "keepAliveConnections ?s2 = keepAliveConnections s1"
      by (simp add: emit_def)
    ultimately show ?thesis
      by (rule pooled_iff_advertised_pool)
  next
    case True
    with chunks have "fst (readChunks srv cli (client_chunks env) (trace ?s2)) = Chunks_complete"
      by (simp only: tr2)
    then obtain tr where rc: "readChunks srv cli (client_chunks env) (trace ?s2)
        = (Chunks_complete, tr)"
      by (cases "readChunks srv cli (client_chunks env) (trace ?s2)") simp
    from True have yc: "(ch \<and> find_str (CHR ''0'' # CRLFCRLF) (body req) = None) = True" by simp
    from fin [unfolded forwardPost_def Let_def d prod.case fr sum.case acc' yc] ok sent rc
    have "forwardResponse (host req) ?p srv cli (response env) (?s2\<lparr>trace := tr\<rparr>) = (Finished, s')"
      by simp
    from forwardResponse_pool [OF this]
    have "pooled_iff_advertised (host req) ?p srv (response env) (?s2\<lparr>trace := tr\<rparr>) s'" .
    moreover have "keepAliveConnections (?s2\<lparr>trace := tr\<rparr>) = keepAliveConnections s1"
      by (simp add: emit_def)
    ultimately show ?thesis
      by (rule pooled_iff_advertised_pool)
  qed
qed


lemma keep_alive_exchange_run:
  "forwardGet (exchange dial_ok (error_after keep_alive_response)) get_req 4 sys0
     = (Finished,
        \<lparr>keepAliveConnections = [''example.com:80'' \<mapsto> 7],
         trace = trace dialled_sys
           @ [Ev_send 7 forwarded_get, Ev_recv 7, Ev_send 4 keep_alive_response, Ev_recv 7]\<rparr>)"
  by (simp add: forwardGet_def exchange_def dial_ok_fresh get_req_def keep_alive_response_def
        error_after_def forwarded_get_def emit_def buildForwardRequest_def hop_by_hop_def
        c_str_def tolower_def forwardResponse_def resp_init_def headerStep_def bodyStep_def
        parseContentLength_def lengthStr_of_def find_from_def stoul_def isspace_def isdigit_def
        digit_val_def ULONG_MAX_def finishExchange_def saveKeepAliveConnection_def
        dialled_sys_def Let_def)

lemma plain_exchange_run:
  "forwardPost (exchange dial_ok (error_after plain_response)) post_ok_req 4 sys0
     = (Finished,
        \<lparr>keepAliveConnections = Map.empty,
         trace = trace dialled_sys
           @ [Ev_send 7 (buildForwardRequest post_ok_req @ ''abc''), Ev_recv 7,
              Ev_send 4 plain_response, Ev_recv 7, Ev_close 7]\<rparr>)"
  by (simp add: forwardPost_def exchange_def dial_ok_fresh post_ok_req_def plain_response_def
        error_after_def requestFraming_def headers_find_def emit_def
        forwardResponse_def resp_init_def headerStep_def bodyStep_def
        parseContentLength_def lengthStr_of_def find_from_def stoul_def isspace_def isdigit_def
        digit_val_def ULONG_MAX_def finishExchange_def
        dialled_sys_def Let_def)

theorem pooling_follows_keep_alive_witness:
  "connectToServer dial_ok ''example.com'' ''80'' sys0 = (7, dialled_sys)
   \<and> fst (forwardGet (exchange dial_ok (error_after keep_alive_response)) get_req 4 sys0) = Finished
   \<and> advertises_keep_alive (error_after keep_alive_response)
   \<and> pooled_iff_advertised ''example.com'' ''80'' 7 (error_after keep_alive_response) dialled_sys
        (snd (forwardGet (exchange dial_ok (error_after keep_alive_response)) get_req 4 sys0))
   \<and> keepAliveConnections
        (snd (forwardGet (exchange dial_ok (error_after keep_alive_response)) get_req 4 sys0))
        ''example.com:80'' = Some 7
   \<and> requestFraming post_ok_req = Inr (3, False)
   \<and> fst (forwardPost (exchange dial_ok (error_after plain_response)) post_ok_req 4 sys0) = Finished
   \<and> \<not> advertises_keep_alive (error_after plain_response)
   \<and> pooled_iff_advertised ''example.com'' ''80'' 7 (error_after plain_response) dialled_sys
        (snd (forwardPost (exchange dial_ok (error_after plain_response)) post_ok_req 4 sys0))
   \<and> last (trace (snd (forwardPost (exchange dial_ok (error_after plain_response))
                          post_ok_req 4 sys0))) = Ev_close 7"
proof -
  let ?E1 = "exchange dial_ok (error_after keep_alive_response)"
  let ?E2 = "exchange dial_ok (error_after plain_response)"
  have adv1: "advertises_keep_alive (error_after keep_alive_response)"
    by (simp add: advertises_keep_alive_def upstream_bytes_def error_after_def
          keep_alive_response_def)
  have adv2: "\<not> advertises_keep_alive (error_after plain_response)"
    by (simp add: advertises_keep_alive_def upstream_bytes_def error_after_def
          plain_response_def)
  have fr: "requestFraming post_ok_req = Inr (3, False)"
    by (simp add: requestFraming_def headers_find_def post_ok_req_def stoul_def isspace_def
          isdigit_def digit_val_def ULONG_MAX_def)
  have g: "forwardGet ?E1 get_req 4 sys0 = (Finished, snd (forwardGet ?E1 get_req 4 sys0))"
    by (simp add: keep_alive_exchange_run)
  have q: "forwardPost ?E2 post_ok_req 4 sys0 = (Finished, snd (forwardPost ?E2 post_ok_req 4 sys0))"
    by (simp add: plain_exchange_run)
  have dg: "connectToServer (dial ?E1) (host get_req) (port get_req) sys0 = (7, dialled_sys)"
    using dial_ok_fresh by (simp add: exchange_def get_req_def)
  have dp: "connectToServer (dial ?E2) (host post_ok_req)
      (if port post_ok_req = [] then ''80'' else port post_ok_req) sys0 = (7, dialled_sys)"
    using dial_ok_fresh by (simp add: exchange_def post_ok_req_def)
  have sg: "request_sent ?E1" and sp: "request_sent ?E2" by (simp_all add: exchange_def)
  have bd: "\<not> ((3::nat) = 0 \<and> \<not> False \<and> body post_ok_req \<noteq> [])" by simp
  have p1: "pooled_iff_advertised (host get_req) (port get_req) 7 (response ?E1) dialled_sys
        (snd (forwardGet ?E1 get_req 4 sys0))"
    using pooling_follows_keep_alive [where env = ?E1 and req = get_req and s = sys0
        and srv = 7 and ?s1.0 = dialled_sys and cli = 4
        and s' = "snd (forwardGet ?E1 get_req 4 sys0)"] dg sg g
    by simp
  have p2: "pooled_iff_advertised (host post_ok_req)
        (if port post_ok_req = [] then ''80'' else port post_ok_req) 7 (response ?E2) dialled_sys
        (snd (forwardPost ?E2 post_ok_req 4 sys0))"
    using pooling_follows_keep_alive [where env = ?E2 and req = post_ok_req and s = sys0
        and srv = 7 and ?s1.0 = dialled_sys and cli = 4 and n = 3 and ch = False
        and s' = "snd (forwardPost ?E2 post_ok_req 4 sys0)"] dp sp q fr bd
    by simp
  from p1 have p1': "pooled_iff_advertised ''example.com'' ''80'' 7
        (error_after keep_alive_response) dialled_sys (snd (forwardGet ?E1 get_req 4 sys0))"
    by (simp add: get_req_def exchange_def)
  from p2 have p2': "pooled_iff_advertised ''example.com'' ''80'' 7
        (error_after plain_response) dialled_sys (snd (forwardPost ?E2 post_ok_req 4 sys0))"
    by (simp add: post_ok_req_def exchange_def)
  from p1' adv1 have k: "keepAliveConnections (snd (forwardGet ?E1 get_req 4 sys0))
        ''example.com:80'' = Some 7"
    by (simp add: pooled_iff_advertised_def)
  from p2' adv2 have l: "last (trace (snd (forwardPost ?E2 post_ok_req 4 sys0))) = Ev_close 7"
    by (simp add: pooled_iff_advertised_def)
  have fg: "fst (forwardGet ?E1 get_req 4 sys0) = Finished"
    by (simp add: keep_alive_exchange_run)
  have fp: "fst (forwardPost ?E2 post_ok_req 4 sys0) = Finished"
    by (simp add: plain_exchange_run)
  show ?thesis
    using dial_ok_fresh fg fp adv1 adv2 fr p1' p2' k l by simp
qed


section \<open>CONNECT: the tunnel closes nothing, the handler closes the upstream\<close>

lemma sendAll_no_close:
  "sendAll dst buf t ss ws tr = (p, ss', ws', tr') \<Longrightarrow>
     \<exists>evs. tr' = tr @ evs \<and> (\<forall>e\<in>set evs. \<not> is_close e)"
proof (induction dst buf t ss ws tr rule: sendAll.induct)
  case (1 dst buffer totalBytesSent ws tr)
  then show ?case by (auto split: if_splits)
next
  case (2 dst buffer totalBytesSent bytesSent e ss ws tr)
  show ?case
  proof (cases "totalBytesSent < int (length buffer)")
    case False
    with "2.prems" show ?thesis by simp
  next
    case more: True
    let ?tr1 = "tr @ [Ev_send dst (drop (nat totalBytesSent) buffer)]"
    show ?thesis
    proof (cases "bytesSent \<le> 0")
      case pos: False
      with more "2.prems"
      have "sendAll dst buffer (totalBytesSent + bytesSent) ss ws ?tr1 = (p, ss', ws', tr')"
        by (simp add: Let_def)
      from "2.IH"(2) [OF _ _ pos this] more
      obtain evs where "tr' = ?tr1 @ evs" "\<forall>e\<in>set evs. \<not> is_close e" by auto
      then show ?thesis by auto
    next
      case nonpos: True
      show ?thesis
      proof (cases "bytesSent < 0 \<and> e = EAGAIN")
        case False
        with more nonpos "2.prems" show ?thesis by (auto simp: Let_def)
      next
        case again: True
        show ?thesis
        proof (cases ws)
          case Nil
          with more nonpos again "2.prems" show ?thesis by (auto simp: Let_def)
        next
          case (Cons w ws2)
          show ?thesis
          proof (cases "w \<le> 0")
            case True
            with more nonpos again Cons "2.prems" show ?thesis
              by (auto simp: Let_def)
          next
            case wpos: False
            with more nonpos again Cons "2.prems"
            have "sendAll dst buffer totalBytesSent ss ws2 ?tr1 = (p, ss', ws', tr')"
              by (simp add: Let_def)
            from "2.IH"(1) [OF _ _ nonpos again Cons wpos this] more
            obtain evs where "tr' = ?tr1 @ evs" "\<forall>e\<in>set evs. \<not> is_close e" by auto
            then show ?thesis by auto
          qed
        qed
      qed
    qed
  qed
qed

lemma pumpOnce_no_close:
  assumes a: "pumpOnce src dst rs ss ws tr = (p, rs', ss', ws', tr')"
  shows "\<exists>evs. tr' = tr @ evs \<and> (\<forall>e\<in>set evs. \<not> is_close e)"
proof (cases rs)
  case Nil
  with a show ?thesis by auto
next
  case (Cons rr rs2)
  show ?thesis
  proof (cases "recv_ret rr \<le> 0")
    case True
    with a Cons show ?thesis by (auto simp: Let_def split: if_splits)
  next
    case False
    with a Cons obtain q where
      "sendAll dst (recv_buf rr) 0 ss ws (tr @ [Ev_recv src]) = (q, ss', ws', tr')"
      by (auto simp: Let_def split: prod.splits)
    from sendAll_no_close [OF this] show ?thesis by auto
  qed
qed

lemma tunnelStep_no_close:
  assumes "tunnelStep cli srv sel rs ss ws tr = (p, rs', ss', ws', tr')"
  shows "\<exists>evs. tr' = tr @ evs \<and> (\<forall>e\<in>set evs. \<not> is_close e)"
proof (cases "activity sel \<le> 0")
  case True
  with assms show ?thesis by (auto simp: tunnelStep_def split: if_splits)
next
  case False
  obtain p1 rs1 ss1 ws1 tr1 where
    first: "(if client_isset sel then pumpOnce cli srv rs ss ws tr
             else (Pump_done, rs, ss, ws, tr)) = (p1, rs1, ss1, ws1, tr1)"
    by (metis prod_cases5)
  have e1: "\<exists>evs. tr1 = tr @ evs \<and> (\<forall>e\<in>set evs. \<not> is_close e)"
    using first pumpOnce_no_close by (auto split: if_splits)
  show ?thesis
  proof (cases "p1 = Pump_done")
    case ne: False
    with assms False first have "tr' = tr1"
      by (cases p1) (auto simp: tunnelStep_def)
    with e1 show ?thesis by simp
  next
    case True
    with assms False first
    have "(if server_isset sel then pumpOnce srv cli rs1 ss1 ws1 tr1
           else (Pump_done, rs1, ss1, ws1, tr1)) = (p, rs', ss', ws', tr')"
      by (auto simp: tunnelStep_def)
    then have "\<exists>evs. tr' = tr1 @ evs \<and> (\<forall>e\<in>set evs. \<not> is_close e)"
      using pumpOnce_no_close by (auto split: if_splits)
    with e1 show ?thesis by auto
  qed
qed

lemma tunnelLoop_no_close:
  "tunnelLoop cli srv sels rs ss ws tr = (st, tr') \<Longrightarrow>
     \<exists>evs. tr' = tr @ evs \<and> (\<forall>e\<in>set evs. \<not> is_close e)"
proof (induction sels arbitrary: rs ss ws tr)
  case Nil
  then show ?case by auto
next
  case (Cons sel sels)
  obtain p rs1 ss1 ws1 tr1 where
    step: "tunnelStep cli srv sel rs ss ws tr = (p, rs1, ss1, ws1, tr1)"
    by (metis prod_cases5)
  from tunnelStep_no_close [OF step]
  obtain evs1 where e1: "tr1 = tr @ evs1" "\<forall>e\<in>set evs1. \<not> is_close e" by auto
  show ?case
  proof (cases "p = Pump_break \<or> p = Pump_blocked")
    case True
    with Cons.prems step e1 show ?thesis by auto
  next
    case False
    with Cons.prems step have "tunnelLoop cli srv sels rs1 ss1 ws1 tr1 = (st, tr')"
      by (cases p) auto
    from Cons.IH [OF this] e1 show ?thesis by auto
  qed
qed

text \<open>
  Claim C8: for every CONNECT request whose dial has succeeded with an upstream socket
  other than the client's, the system calls of the handler after the dial never close
  the client socket, whether the handler has returned or is still in its tunnel; and
  on every path on which the handler returns, its last system call closes the upstream
  socket, which is the only socket it closes.
\<close>

theorem connect_closes_upstream_only:
  assumes dial: "connectToServer (tunnel_dial env) (host req) (port req) s = (srv, s1)"
    and ok: "0 \<le> srv" and distinct: "srv \<noteq> cli"
  shows "\<exists>evs. trace (snd (forwardConnect env req cli s)) = trace s1 @ evs
           \<and> Ev_close cli \<notin> set evs
           \<and> (fst (forwardConnect env req cli s) = Finished \<longrightarrow>
                filter is_close evs = [Ev_close srv] \<and> last evs = Ev_close srv)"
proof (cases "established_sent env")
  case False
  with dial ok distinct show ?thesis
    by (simp add: forwardConnect_def emit_def Let_def)
next
  case True
  let ?tr2 = "trace s1 @ [Ev_send cli established_response]"
  obtain st tr' where loop: "tunnelLoop cli srv (selects env) (recvs env) (sends env)
      (write_selects env) ?tr2 = (st, tr')"
    by (cases "tunnelLoop cli srv (selects env) (recvs env) (sends env) (write_selects env) ?tr2")
  from tunnelLoop_no_close [OF loop]
  obtain evs where evs: "tr' = ?tr2 @ evs" "\<forall>e\<in>set evs. \<not> is_close e" by auto
  have nc: "filter is_close evs = []" "Ev_close cli \<notin> set evs"
    using evs(2) by (auto simp: filter_empty_conv)
  show ?thesis
  proof (cases "st = Finished")
    case True
    with dial ok \<open>established_sent env\<close> loop evs
    have "trace (snd (forwardConnect env req cli s))
            = trace s1 @ (Ev_send cli established_response # evs @ [Ev_close srv])"
      and "fst (forwardConnect env req cli s) = Finished"
      by (simp_all add: forwardConnect_def emit_def Let_def)
    with nc distinct show ?thesis by auto
  next
    case False
    with dial ok \<open>established_sent env\<close> loop evs
    have "trace (snd (forwardConnect env req cli s))
            = trace s1 @ (Ev_send cli established_response # evs)"
      and "fst (forwardConnect env req cli s) \<noteq> Finished"
      by (cases st; simp add: forwardConnect_def emit_def Let_def)+
    with nc show ?thesis by auto
  qed
qed

lemma tunnel_run_trace:
  "forwardConnect tunnel_run connect_req 4 sys0
     = (Finished,
        tunnel_sys\<lparr>trace := trace tunnel_sys
          @ [Ev_send 4 established_response, Ev_recv 4, Ev_send 7 ''hi'', Ev_send 7 ''i'',
             Ev_recv 7, Ev_close 7]\<rparr>)"
  by (simp add: forwardConnect_def tunnel_run_def connect_req_def connectToServer_def
        getKeepAliveConnection_def newConnection_def dial_ok_def sys0_def tunnel_sys_def
        emit_def tunnelStep_def Let_def)

theorem connect_closes_upstream_only_witness:
  "connectToServer (tunnel_dial tunnel_run) (host connect_req) (port connect_req) sys0
     = (7, tunnel_sys)
   \<and> fst (forwardConnect tunnel_run connect_req 4 sys0) = Finished
   \<and> trace (snd (forwardConnect tunnel_run connect_req 4 sys0))
       = trace tunnel_sys
         @ [Ev_send 4 established_response, Ev_recv 4, Ev_send 7 ''hi'', Ev_send 7 ''i'',
            Ev_recv 7, Ev_close 7]
   \<and> (\<exists>evs. trace (snd (forwardConnect tunnel_run connect_req 4 sys0)) = trace tunnel_sys @ evs
          \<and> Ev_close 4 \<notin> set evs
          \<and> filter is_close evs = [Ev_close 7] \<and> last evs = Ev_close 7)"
proof -
  have d: "connectToServer (tunnel_dial tunnel_run) (host connect_req) (port connect_req) sys0
     = (7, tunnel_sys)"
    by (simp add: tunnel_run_def connect_req_def connectToServer_def
        getKeepAliveConnection_def newConnection_def dial_ok_def sys0_def tunnel_sys_def
        emit_def)
  have ok: "(0::int) \<le> 7" and ne: "(7::int) \<noteq> 4" by simp_all
  have f: "fst (forwardConnect tunnel_run connect_req 4 sys0) = Finished"
    by (simp add: tunnel_run_trace)
  from connect_closes_upstream_only [OF d ok ne] f
  have "\<exists>evs. trace (snd (forwardConnect tunnel_run connect_req 4 sys0)) = trace tunnel_sys @ evs
          \<and> Ev_close 4 \<notin> set evs
          \<and> filter is_close evs = [Ev_close 7] \<and> last evs = Ev_close 7"
    by simp
  with d f show ?thesis by (simp add: tunnel_run_trace)
qed


section \<open>The forwarded request, read back\<close>

lemma split_crlf_step:
  "c \<noteq> CHR 0x0D \<Longrightarrow> cs \<noteq> [] \<Longrightarrow>
     split_crlf (c # cs) = (case split_crlf cs of [] \<Rightarrow> [[c]] | l # ls \<Rightarrow> (c # l) # ls)"
  by (cases cs) auto

text \<open>A line without carriage return, followed by a line terminator, is split off whole.\<close>

lemma split_crlf_line:
  "CHR 0x0D \<notin> set line \<Longrightarrow>
     split_crlf (line @ CRLF @ rest) = line # split_crlf rest"
proof (induction line)
  case Nil
  show ?case by simp
next
  case (Cons c line)
  then have "c \<noteq> CHR 0x0D" and "CHR 0x0D \<notin> set line" by auto
  then show ?case using Cons.IH by (simp add: split_crlf_step)
qed

lemma split_forward_headers:
  "\<forall>h \<in> set hs. CHR 0x0D \<notin> set (fst h) \<and> CHR 0x0D \<notin> set (snd h) \<Longrightarrow>
     split_crlf (forward_headers hs @ rest)
       = map line_of (filter (\<lambda>h. \<not> hop_by_hop (fst h)) hs) @ split_crlf rest"
proof (induction hs)
  case Nil
  show ?case by simp
next
  case (Cons h hs)
  from Cons have IH: "split_crlf (forward_headers hs @ rest)
       = map line_of (filter (\<lambda>h. \<not> hop_by_hop (fst h)) hs) @ split_crlf rest"
    by simp
  show ?case
  proof (cases "hop_by_hop (fst h)")
    case True
    with IH show ?thesis by simp
  next
    case False
    have nocr: "CHR 0x0D \<notin> set (line_of h)"
      using Cons.prems by (simp add: line_of_def)
    have eq: "forward_headers (h # hs) @ rest = line_of h @ CRLF @ (forward_headers hs @ rest)"
      using False by (simp add: line_of_def)
    have "split_crlf (forward_headers (h # hs) @ rest)
        = line_of h # split_crlf (forward_headers hs @ rest)"
      by (simp only: eq split_crlf_line [OF nocr])
    with IH False show ?thesis by simp
  qed
qed

lemma takeWhile_all:
  "\<forall>x \<in> set xs. P x \<Longrightarrow> takeWhile P (xs @ ys) = xs @ takeWhile P ys"
  by (induction xs) auto

lemma parse_field_line_of:
  assumes "CHR '':'' \<notin> set (fst h)"
  shows "parse_field (line_of h) = h"
proof -
  have "\<forall>c \<in> set (fst h). c \<noteq> CHR '':''"
    using assms by auto
  then have "takeWhile (\<lambda>c. c \<noteq> CHR '':'') (fst h @ '': '' @ snd h) = fst h"
    by (simp add: takeWhile_all)
  then show ?thesis
    by (simp add: parse_field_def line_of_def Let_def)
qed

lemma lines_of_request:
  assumes "well_formed req"
  shows "split_crlf (buildForwardRequest req)
     = (http_method req @ '' '' @ request req @ '' '' @ version req)
       # map line_of (filter (\<lambda>h. \<not> hop_by_hop (fst h)) (headers req))
       @ [''Connection: keep-alive'', [], []]"
proof -
  let ?first = "http_method req @ '' '' @ request req @ '' '' @ version req"
  have nocr: "CHR 0x0D \<notin> set ?first"
    using assms by (simp add: well_formed_def)
  have hs: "\<forall>h \<in> set (headers req). CHR 0x0D \<notin> set (fst h) \<and> CHR 0x0D \<notin> set (snd h)"
    using assms by (simp add: well_formed_def)
  have tail: "split_crlf (''Connection: keep-alive'' @ CRLF @ CRLF)
      = [''Connection: keep-alive'', [], []]"
    by simp
  have "buildForwardRequest req
      = ?first @ CRLF @ (forward_headers (headers req) @ (''Connection: keep-alive'' @ CRLF @ CRLF))"
    by (simp add: buildForwardRequest_def)
  then have "split_crlf (buildForwardRequest req)
      = ?first # split_crlf (forward_headers (headers req)
                   @ (''Connection: keep-alive'' @ CRLF @ CRLF))"
    using split_crlf_line [OF nocr] by simp
  also have "\<dots> = ?first # (map line_of (filter (\<lambda>h. \<not> hop_by_hop (fst h)) (headers req))
        @ [''Connection: keep-alive'', [], []])"
    using split_forward_headers [OF hs] tail by simp
  finally show ?thesis by simp
qed

lemma hop_by_hop_Connection: "hop_by_hop ''Connection''"
  by (simp add: hop_by_hop_def c_str_def tolower_def)

text \<open>
  The header fields of the forwarded request are the headers of the request that are
  not hop-by-hop, in their order and unchanged, followed by the one that is added.
\<close>

lemma header_fields_request:
  assumes "well_formed req"
  shows "header_fields (buildForwardRequest req)
     = filter (\<lambda>h. \<not> hop_by_hop (fst h)) (headers req) @ [(''Connection'', ''keep-alive'')]"
proof -
  let ?kept = "filter (\<lambda>h. \<not> hop_by_hop (fst h)) (headers req)"
  have ne: "\<forall>l \<in> set (map line_of ?kept). l \<noteq> []"
    by (simp add: line_of_def)
  have "takeWhile (\<lambda>l. l \<noteq> []) (map line_of ?kept @ [''Connection: keep-alive'', [], []])
      = map line_of ?kept @ [''Connection: keep-alive'']"
    using takeWhile_all [OF ne] by simp
  then have "header_fields (buildForwardRequest req)
      = map parse_field (map line_of ?kept) @ [parse_field ''Connection: keep-alive'']"
    by (simp add: header_fields_def lines_of_request [OF assms])
  moreover have "map parse_field (map line_of ?kept) = ?kept"
  proof -
    have "\<And>h. h \<in> set ?kept \<Longrightarrow> parse_field (line_of h) = h"
      using assms by (auto simp: well_formed_def intro: parse_field_line_of)
    then have "map (\<lambda>h. parse_field (line_of h)) ?kept = ?kept"
      by (rule map_idI)
    then show ?thesis by (simp add: comp_def)
  qed
  moreover have "parse_field ''Connection: keep-alive'' = (''Connection'', ''keep-alive'')"
    by (simp add: parse_field_def)
  ultimately show ?thesis by simp
qed


section \<open>The strip list: the comparison of the code and the one of the specification\<close>

lemma tolower_nonzero:
  assumes "c \<noteq> CHR 0x00"
  shows "(of_char (tolower c) :: nat) \<noteq> 0"
proof (cases "65 \<le> (of_char c :: nat) \<and> (of_char c :: nat) \<le> 90")
  case True
  then show ?thesis by (simp add: tolower_def Let_def)
next
  case False
  have "(of_char c :: nat) \<noteq> of_char (CHR 0x00)"
    using assms by (simp only: of_char_eq_iff) simp
  with False show ?thesis by (simp add: tolower_def Let_def)
qed

text \<open>On strings without NUL bytes, \<^verbatim>\<open>strcasecmp\<close> returns 0 exactly for strings that are
  equal up to the case of their letters.\<close>

lemma strcasecmp_zero_iff:
  "CHR 0x00 \<notin> set a \<Longrightarrow> CHR 0x00 \<notin> set b \<Longrightarrow>
     (strcasecmp a b = 0) = (map tolower a = map tolower b)"
proof (induction a b rule: strcasecmp.induct)
  case 1
  show ?case by simp
next
  case (2 b bs)
  then have "b \<noteq> CHR 0x00" by auto
  from tolower_nonzero [OF this] show ?case by simp
next
  case (3 a as)
  then have "a \<noteq> CHR 0x00" by auto
  from tolower_nonzero [OF this] show ?case by simp
next
  case (4 a as b bs)
  show ?case
  proof (cases "tolower a = tolower b")
    case True
    with 4 show ?thesis by simp
  next
    case False
    then have "(of_char (tolower a) :: nat) \<noteq> of_char (tolower b)"
      by (simp only: of_char_eq_iff) simp
    with False show ?thesis by simp
  qed
qed

lemma c_str_id: "CHR 0x00 \<notin> set s \<Longrightarrow> c_str s = s"
  by (auto simp add: c_str_def takeWhile_eq_all_conv)

lemma hop_by_hop_iff:
  assumes "CHR 0x00 \<notin> set name"
  shows "hop_by_hop name = in_strip_list name"
proof -
  have z: "\<And>lit. CHR 0x00 \<notin> set lit \<Longrightarrow>
      (strcasecmp (c_str name) lit = 0) = (lower name = lower lit)"
    using assms by (simp add: c_str_id strcasecmp_zero_iff lower_def)
  have "hop_by_hop name =
     (lower name = lower ''Connection'' \<or> lower name = lower ''Keep-Alive''
      \<or> lower name = lower ''Proxy-Connection'' \<or> lower name = lower ''Proxy-Authorization''
      \<or> lower name = lower ''TE'' \<or> lower name = lower ''Trailer''
      \<or> lower name = lower ''Transfer-Encoding'' \<or> lower name = lower ''Upgrade'')"
    unfolding hop_by_hop_def by (simp add: z)
  also have "\<dots> = in_strip_list name"
    unfolding in_strip_list_def strip_list_def by (simp only: list.map list.set) blast
  finally show ?thesis .
qed

lemma in_strip_list_Connection:
  "lower name = lower ''Connection'' \<Longrightarrow> in_strip_list name"
  unfolding in_strip_list_def strip_list_def by (simp only: list.map list.set) blast

text \<open>
  Claim C7: for every request with well-formed headers, the header fields of the output
  of \<^verbatim>\<open>buildForwardRequest\<close> contain exactly one header whose name is in the strip list
  up to case, namely \<^verbatim>\<open>Connection: keep-alive\<close>, and this is the only header named
  \<^verbatim>\<open>Connection\<close>; the other header fields are the request's headers outside the strip
  list, in their order and as received; the output ends with an empty line and does not
  depend on the body.
\<close>

theorem forward_request_headers:
  assumes "well_formed req"
  shows "filter (\<lambda>h. in_strip_list (fst h)) (header_fields (buildForwardRequest req))
           = [(''Connection'', ''keep-alive'')]
     \<and> filter (\<lambda>h. lower (fst h) = lower ''Connection'')
          (header_fields (buildForwardRequest req))
           = [(''Connection'', ''keep-alive'')]
     \<and> filter (\<lambda>h. \<not> in_strip_list (fst h)) (header_fields (buildForwardRequest req))
           = filter (\<lambda>h. \<not> in_strip_list (fst h)) (headers req)
     \<and> suffix CRLFCRLF (buildForwardRequest req)
     \<and> buildForwardRequest (req\<lparr>body := b\<rparr>) = buildForwardRequest req"
proof -
  let ?kept = "filter (\<lambda>h. \<not> in_strip_list (fst h)) (headers req)"
  have "\<And>h. h \<in> set (headers req) \<Longrightarrow> (\<not> hop_by_hop (fst h)) = (\<not> in_strip_list (fst h))"
    using assms by (simp add: well_formed_def hop_by_hop_iff)
  then have "filter (\<lambda>h. \<not> hop_by_hop (fst h)) (headers req) = ?kept"
    by (intro filter_cong) simp_all
  then have fields: "header_fields (buildForwardRequest req)
      = ?kept @ [(''Connection'', ''keep-alive'')]"
    using header_fields_request [OF assms] by simp
  have strip: "in_strip_list ''Connection''"
    by (rule in_strip_list_Connection) (rule refl)
  have none: "filter (\<lambda>h. in_strip_list (fst h)) ?kept = []"
    by (simp add: filter_empty_conv)
  have "\<forall>h \<in> set ?kept. \<not> lower (fst h) = lower ''Connection''"
  proof
    fix h assume "h \<in> set ?kept"
    then have "\<not> in_strip_list (fst h)" by simp
    then show "\<not> lower (fst h) = lower ''Connection''"
      using in_strip_list_Connection by blast
  qed
  then have conn: "filter (\<lambda>h. lower (fst h) = lower ''Connection'') ?kept = []"
    by (simp only: filter_empty_conv)
  have "suffix CRLFCRLF (buildForwardRequest req)"
    unfolding suffix_def buildForwardRequest_def
    by (rule exI [of _ "http_method req @ '' '' @ request req @ '' '' @ version req @ CRLF
           @ forward_headers (headers req) @ ''Connection: keep-alive''"]) simp
  moreover have "buildForwardRequest (req\<lparr>body := b\<rparr>) = buildForwardRequest req"
    by (simp add: buildForwardRequest_def)
  ultimately show ?thesis
    using strip by (simp add: fields none conn del: filter_filter)
qed

theorem forward_request_headers_witness:
  "well_formed strip_req
   \<and> header_fields (buildForwardRequest strip_req)
       = [(''Host'', ''example.com''), (''Accept'', ''*/*''), (''Connection'', ''keep-alive'')]
   \<and> filter (\<lambda>h. in_strip_list (fst h)) (header_fields (buildForwardRequest strip_req))
       = [(''Connection'', ''keep-alive'')]
   \<and> filter (\<lambda>h. lower (fst h) = lower ''Connection'')
        (header_fields (buildForwardRequest strip_req))
       = [(''Connection'', ''keep-alive'')]
   \<and> filter (\<lambda>h. \<not> in_strip_list (fst h)) (header_fields (buildForwardRequest strip_req))
       = [(''Host'', ''example.com''), (''Accept'', ''*/*'')]
   \<and> suffix CRLFCRLF (buildForwardRequest strip_req)
   \<and> buildForwardRequest (strip_req\<lparr>body := []\<rparr>) = buildForwardRequest strip_req"
proof -
  have wf: "well_formed strip_req"
    by (simp add: well_formed_def strip_req_def)
  have kept: "filter (\<lambda>h. \<not> hop_by_hop (fst h)) (headers strip_req)
      = [(''Host'', ''example.com''), (''Accept'', ''*/*'')]"
    by (simp add: strip_req_def hop_by_hop_def c_str_def tolower_def)
  have fields: "header_fields (buildForwardRequest strip_req)
       = [(''Host'', ''example.com''), (''Accept'', ''*/*''), (''Connection'', ''keep-alive'')]"
    by (simp add: header_fields_request [OF wf] kept)
  have "\<And>h. h \<in> set (headers strip_req) \<Longrightarrow>
      (\<not> in_strip_list (fst h)) = (\<not> hop_by_hop (fst h))"
    using wf by (simp add: well_formed_def hop_by_hop_iff)
  then have "filter (\<lambda>h. \<not> in_strip_list (fst h)) (headers strip_req)
      = filter (\<lambda>h. \<not> hop_by_hop (fst h)) (headers strip_req)"
    by (intro filter_cong) simp_all
  with kept have other: "filter (\<lambda>h. \<not> in_strip_list (fst h)) (headers strip_req)
      = [(''Host'', ''example.com''), (''Accept'', ''*/*'')]"
    by simp
  show ?thesis
    using forward_request_headers [OF wf, of "[]"] wf fields other by simp
qed

end
